theory Spec2Isabelle
  imports Complex_Main "HOL-Library.Multiset"
begin

section \<open>Numbers\<close>

text \<open>
  Python's \<open>int\<close> is unbounded and is modelled by \<open>int\<close>. A Python \<open>float\<close> is a binary64
  number; it is modelled by the real number it denotes (finite floats only). The model is
  parametric in the rounding function \<open>rnd\<close> that maps a real to the float that stands for
  it: a float literal which is not itself a float (\<open>1.8\<close>, \<open>0.05\<close>) denotes \<open>rnd\<close> of it,
  float addition and multiplication are the rounded exact operations, and an \<open>int\<close> that
  meets a float is rounded first. The literals \<open>0.75\<close> and \<open>0.0\<close> are floats and denote
  themselves. \<open>int(x)\<close> of a float truncates toward zero. Numbers beyond the range of
  binary64, where Python raises \<open>OverflowError\<close>, and the special values of binary64 are
  outside the model.
\<close>

type_synonym rounding = "real \<Rightarrow> real"

definition fadd :: "rounding \<Rightarrow> real \<Rightarrow> real \<Rightarrow> real" where
  "fadd rnd x y = rnd (x + y)"

definition fmul :: "rounding \<Rightarrow> real \<Rightarrow> real \<Rightarrow> real" where
  "fmul rnd x y = rnd (x * y)"

definition float_of_int :: "rounding \<Rightarrow> int \<Rightarrow> real" where
  "float_of_int rnd i = rnd (of_int i)"

definition int_of_float :: "real \<Rightarrow> int" where
  "int_of_float x = (if 0 \<le> x then \<lfloor>x\<rfloor> else \<lceil>x\<rceil>)"

section \<open>Entity model\<close>

text \<open>
  Weapons and units are mutable objects that several places refer to (a hero and \<open>main\<close>
  share one weapon; a team and the turn order share the units), so they live in a store
  and are named by references.
\<close>

type_synonym ref = nat

record Weapon =
  damage_bonus :: int
  crit_bonus :: real
  speed_bonus :: int

record Unit =
  name :: string
  max_hp :: int
  attack :: int
  defense :: int
  crit :: real
  speed :: int
  is_hero :: bool
  weapon :: "ref option"
  hp :: int

text \<open>\<open>Weapon()\<close>: every field at its default.\<close>

definition Weapon_default :: Weapon where
  "Weapon_default = \<lparr>damage_bonus = 0, crit_bonus = 0, speed_bonus = 0\<rparr>"

text \<open>\<open>__post_init__\<close> runs after the generated constructor has stored the fields.\<close>

definition post_init :: "Unit \<Rightarrow> Unit" where
  "post_init u = u\<lparr>hp := max_hp u\<rparr>"

definition is_alive :: "Unit \<Rightarrow> bool" where
  "is_alive u \<longleftrightarrow> hp u > 0"

text \<open>
  The derived stats read the weapon through the store \<open>wp\<close>. A \<open>Weapon\<close> object is always
  truthy, so \<open>self.is_hero and self.weapon\<close> holds exactly when the unit is a hero and
  its weapon is not \<open>None\<close>.
\<close>

definition effective_attack :: "(ref \<Rightarrow> Weapon) \<Rightarrow> Unit \<Rightarrow> int" where
  "effective_attack wp u =
     (case weapon u of
        Some w \<Rightarrow> if is_hero u then attack u + damage_bonus (wp w) else attack u
      | None \<Rightarrow> attack u)"

definition effective_crit :: "rounding \<Rightarrow> (ref \<Rightarrow> Weapon) \<Rightarrow> Unit \<Rightarrow> real" where
  "effective_crit rnd wp u =
     (case weapon u of
        Some w \<Rightarrow> if is_hero u then min 0.75 (fadd rnd (crit u) (crit_bonus (wp w))) else crit u
      | None \<Rightarrow> crit u)"

definition effective_speed :: "(ref \<Rightarrow> Weapon) \<Rightarrow> Unit \<Rightarrow> int" where
  "effective_speed wp u =
     (case weapon u of
        Some w \<Rightarrow> if is_hero u then speed u + speed_bonus (wp w) else speed u
      | None \<Rightarrow> speed u)"

text \<open>\<open>take_hit\<close> returns the unit after the hit and the value the method returns.\<close>

definition take_hit :: "Unit \<Rightarrow> int \<Rightarrow> Unit \<times> int" where
  "take_hit u raw_damage =
     (let mitigated = max 1 (raw_damage - defense u)
      in (u\<lparr>hp := max 0 (hp u - mitigated)\<rparr>, mitigated))"

text \<open>
  The generated \<open>__eq__\<close> of the dataclass compares the fields one by one; the weapon field
  compares two weapons by their fields as well.
\<close>

definition unit_eq :: "(ref \<Rightarrow> Weapon) \<Rightarrow> Unit \<Rightarrow> Unit \<Rightarrow> bool" where
  "unit_eq wp a b \<longleftrightarrow>
     name a = name b \<and> max_hp a = max_hp b \<and> attack a = attack b \<and> defense a = defense b
     \<and> crit a = crit b \<and> speed a = speed b \<and> is_hero a = is_hero b
     \<and> map_option wp (weapon a) = map_option wp (weapon b) \<and> hp a = hp b"

section \<open>Process state, teams and the random source\<close>

text \<open>
  The lines the program prints to report what an operation did. Menus, headers and the
  team display are not modelled.
\<close>

datatype event =
  Hit string string int string
| Invalid_choice
| Not_enough_gold
| Max_units_reached

text \<open>
  What \<open>input(...).strip().lower()\<close> gives the shops: the text \<open>d\<close>, a text of digits with
  the number \<open>int\<close> reads from it, a text that \<open>isdigit\<close> accepts and \<open>int\<close> refuses
  (a superscript digit), or anything else.
\<close>

datatype line = Done | Digits nat | Odd_digits | Other

datatype error = EOFError | ValueError

text \<open>
  The state of the process: the store of units and weapons with the number of objects
  created so far, the random source, the pending input lines and the output. The
  random source is a sequence of draws: the \<open>k\<close>-th call of the generator is answered by
  \<open>picks k\<close> when it is \<open>random.choice\<close> and by \<open>rolls k\<close> when it is \<open>random.random\<close>.
\<close>

record world =
  unit_at :: "ref \<Rightarrow> Unit"
  weapon_at :: "ref \<Rightarrow> Weapon"
  unit_count :: nat
  weapon_count :: nat
  picks :: "nat \<Rightarrow> nat"
  rolls :: "nat \<Rightarrow> real"
  drawn :: nat
  stdin :: "line list"
  stdout :: "event list"

text \<open>\<open>random.choice\<close> of a non-empty sequence: every call site has checked that.\<close>

definition random_choice :: "world \<Rightarrow> 'a list \<Rightarrow> 'a \<times> world" where
  "random_choice w xs = (xs ! (picks w (drawn w) mod length xs), w\<lparr>drawn := drawn w + 1\<rparr>)"

definition random_random :: "world \<Rightarrow> real \<times> world" where
  "random_random w = (rolls w (drawn w), w\<lparr>drawn := drawn w + 1\<rparr>)"

record Team =
  team_name :: string
  units :: "ref list"

definition alive_units :: "world \<Rightarrow> Team \<Rightarrow> ref list" where
  "alive_units w t = filter (\<lambda>r. is_alive (unit_at w r)) (units t)"

definition is_defeated :: "world \<Rightarrow> Team \<Rightarrow> bool" where
  "is_defeated w t = list_all (\<lambda>r. \<not> is_alive (unit_at w r)) (units t)"

text \<open>\<open>x in xs\<close> on a list of units: identity first, then \<open>__eq__\<close>.\<close>

definition contains :: "world \<Rightarrow> ref \<Rightarrow> ref list \<Rightarrow> bool" where
  "contains w a rs = list_ex (\<lambda>e. a = e \<or> unit_eq (weapon_at w) (unit_at w a) (unit_at w e)) rs"

section \<open>Combat resolver\<close>

text \<open>
  \<open>list.sort(key=..., reverse=True)\<close> is Python's built-in stable sort with every
  comparison reversed: descending by key, elements of equal key in their original order.
\<close>

definition sort_reverse :: "('a \<Rightarrow> int) \<Rightarrow> 'a list \<Rightarrow> 'a list" where
  "sort_reverse key xs = sort_key (\<lambda>x. - key x) xs"

definition turn_order :: "world \<Rightarrow> Team \<Rightarrow> Team \<Rightarrow> ref list" where
  "turn_order w player enemy =
     sort_reverse (\<lambda>r. effective_speed (weapon_at w) (unit_at w r))
       (alive_units w player @ alive_units w enemy)"

text \<open>Lines 214 to 219: the damage of one attack and the text appended to its report.\<close>

definition attack_damage :: "rounding \<Rightarrow> world \<Rightarrow> ref \<Rightarrow> real \<Rightarrow> int \<times> string" where
  "attack_damage rnd w a roll =
     (let damage = effective_attack (weapon_at w) (unit_at w a)
      in if roll < effective_crit rnd (weapon_at w) (unit_at w a)
         then (int_of_float (fmul rnd (float_of_int rnd damage) (rnd 1.8)), '' CRIT!'')
         else (damage, []))"

text \<open>Lines 213 to 221: one attack of \<open>attacker\<close> on a target chosen among \<open>targets\<close>.\<close>

definition attack_turn :: "rounding \<Rightarrow> ref \<Rightarrow> ref list \<Rightarrow> world \<Rightarrow> world" where
  "attack_turn rnd attacker targets w =
     (let (target, w1) = random_choice w targets;
          (roll, w2) = random_random w1;
          (damage, crit_text) = attack_damage rnd w2 attacker roll;
          (hit, dealt) = take_hit (unit_at w2 target) damage;
          w3 = w2\<lparr>unit_at := (unit_at w2)(target := hit)\<rparr>
      in w3\<lparr>stdout := stdout w3 @
               [Hit (name (unit_at w3 attacker)) (name (unit_at w3 target)) dealt crit_text]\<rparr>)"

text \<open>The loop over the turn order; \<open>break\<close> returns the state as it is.\<close>

fun fight_loop :: "rounding \<Rightarrow> Team \<Rightarrow> Team \<Rightarrow> ref list \<Rightarrow> world \<Rightarrow> world" where
  "fight_loop rnd player enemy [] w = w"
| "fight_loop rnd player enemy (attacker # rest) w =
     (if \<not> is_alive (unit_at w attacker) then fight_loop rnd player enemy rest w
      else let targets = (if contains w attacker (units player)
                          then alive_units w enemy else alive_units w player)
           in if targets = [] then w
              else fight_loop rnd player enemy rest (attack_turn rnd attacker targets w))"

definition classify :: "nat \<Rightarrow> nat \<Rightarrow> string" where
  "classify player_alive enemy_alive =
     (if enemy_alive = 0 \<and> player_alive = 0 then ''draw''
      else if enemy_alive = 0 then ''player''
      else if player_alive = 0 then ''enemy''
      else ''continue'')"

definition fight_round :: "rounding \<Rightarrow> Team \<Rightarrow> Team \<Rightarrow> world \<Rightarrow> string \<times> world" where
  "fight_round rnd player enemy w =
     (let fighters = turn_order w player enemy;
          w' = fight_loop rnd player enemy fighters w;
          player_alive = length (alive_units w' player);
          enemy_alive = length (alive_units w' enemy)
      in (classify player_alive enemy_alive, w'))"

section \<open>Configuration\<close>

definition START_GOLD :: int where
  "START_GOLD = 20"

definition ROUND_INCOME :: int where
  "ROUND_INCOME = 5"

definition MAX_UNITS :: nat where
  "MAX_UNITS = 6"

text \<open>An entry of \<open>UNIT_CATALOG\<close>: a dictionary with these seven keys.\<close>

record template =
  t_name :: string
  t_cost :: int
  t_max_hp :: int
  t_attack :: int
  t_defense :: int
  t_crit :: real
  t_speed :: int

definition UNIT_CATALOG :: "rounding \<Rightarrow> template list" where
  "UNIT_CATALOG rnd =
     [\<lparr>t_name = ''Swordsman'', t_cost = 4, t_max_hp = 24, t_attack = 7, t_defense = 2,
       t_crit = rnd 0.05, t_speed = 5\<rparr>,
      \<lparr>t_name = ''Archer'', t_cost = 5, t_max_hp = 18, t_attack = 9, t_defense = 1,
       t_crit = rnd 0.10, t_speed = 7\<rparr>,
      \<lparr>t_name = ''Guardian'', t_cost = 6, t_max_hp = 32, t_attack = 6, t_defense = 4,
       t_crit = rnd 0.03, t_speed = 3\<rparr>,
      \<lparr>t_name = ''Rogue'', t_cost = 5, t_max_hp = 20, t_attack = 8, t_defense = 1,
       t_crit = rnd 0.15, t_speed = 8\<rparr>]"

text \<open>
  An entry of \<open>UPGRADES\<close>. The dictionary's \<open>key\<close> and \<open>value\<close> form a tagged value: the
  key says which weapon field the value is added to and so whether it is an \<open>int\<close> or a
  \<open>float\<close>.
\<close>

datatype effect = Damage int | Crit real | Speed int

record upgrade =
  effect :: effect
  label :: string
  cost :: int

definition UPGRADES :: "rounding \<Rightarrow> upgrade list" where
  "UPGRADES rnd =
     [\<lparr>effect = Damage 2, label = ''+2 Weapon Damage'', cost = 6\<rparr>,
      \<lparr>effect = Crit (rnd 0.05), label = ''+5% Crit Chance'', cost = 5\<rparr>,
      \<lparr>effect = Speed 1, label = ''+1 Weapon Speed'', cost = 4\<rparr>]"

section \<open>Creating objects\<close>

text \<open>
  A constructor call stores the new object at the next free reference. For a unit the
  generated \<open>__init__\<close> stores the fields (\<open>hp\<close> at its default 0 when it is not passed)
  and then runs \<open>__post_init__\<close>.
\<close>

definition new_weapon :: "Weapon \<Rightarrow> world \<Rightarrow> ref \<times> world" where
  "new_weapon wpn w =
     (weapon_count w,
      w\<lparr>weapon_at := (weapon_at w)(weapon_count w := wpn), weapon_count := weapon_count w + 1\<rparr>)"

definition new_unit :: "Unit \<Rightarrow> world \<Rightarrow> ref \<times> world" where
  "new_unit u w =
     (unit_count w,
      w\<lparr>unit_at := (unit_at w)(unit_count w := post_init u), unit_count := unit_count w + 1\<rparr>)"

definition create_hero :: "rounding \<Rightarrow> string \<Rightarrow> ref \<Rightarrow> world \<Rightarrow> ref \<times> world" where
  "create_hero rnd nm wpn w =
     new_unit \<lparr>name = nm, max_hp = 30, attack = 8, defense = 2, crit = rnd 0.1, speed = 6,
               is_hero = True, weapon = Some wpn, hp = 0\<rparr> w"

definition create_unit :: "template \<Rightarrow> world \<Rightarrow> ref \<times> world" where
  "create_unit t w =
     new_unit \<lparr>name = t_name t, max_hp = t_max_hp t, attack = t_attack t,
               defense = t_defense t, crit = t_crit t, speed = t_speed t,
               is_hero = False, weapon = None, hp = 0\<rparr> w"

section \<open>Shops\<close>

text \<open>\<open>input\<close> takes the next pending line and raises \<open>EOFError\<close> when there is none.\<close>

definition read_line :: "world \<Rightarrow> error + (line \<times> world)" where
  "read_line w = (case stdin w of [] \<Rightarrow> Inl EOFError | l # ls \<Rightarrow> Inr (l, w\<lparr>stdin := ls\<rparr>))"

definition print :: "event \<Rightarrow> world \<Rightarrow> world" where
  "print e w = w\<lparr>stdout := stdout w @ [e]\<rparr>"

function run_prematch_shop ::
  "rounding \<Rightarrow> int \<Rightarrow> Team \<Rightarrow> world \<Rightarrow> error + (int \<times> Team \<times> world)" where
  "run_prematch_shop rnd gold team w =
     (if length (units team) \<ge> MAX_UNITS then Inr (gold, team, print Max_units_reached w)
      else case read_line w of
        Inl e \<Rightarrow> Inl e
      | Inr (choice, w1) \<Rightarrow>
          (case choice of
             Done \<Rightarrow> Inr (gold, team, w1)
           | Other \<Rightarrow> run_prematch_shop rnd gold team (print Invalid_choice w1)
           | Odd_digits \<Rightarrow> Inl ValueError
           | Digits n \<Rightarrow>
               if \<not> (1 \<le> n \<and> n \<le> length (UNIT_CATALOG rnd))
               then run_prematch_shop rnd gold team (print Invalid_choice w1)
               else let pick = UNIT_CATALOG rnd ! (n - 1)
                    in if gold < t_cost pick
                       then run_prematch_shop rnd gold team (print Not_enough_gold w1)
                       else let (u, w2) = create_unit pick w1
                            in run_prematch_shop rnd (gold - t_cost pick)
                                 (team\<lparr>units := units team @ [u]\<rparr>) w2))"
  by pat_completeness auto
termination
  by (relation "measure (\<lambda>(rnd, gold, team, w). length (stdin w))")
     (auto simp: read_line_def print_def create_unit_def new_unit_def split: list.splits)

text \<open>Lines 168 to 173 and, word for word, lines 193 to 198.\<close>

definition apply_upgrade :: "rounding \<Rightarrow> upgrade \<Rightarrow> Weapon \<Rightarrow> Weapon" where
  "apply_upgrade rnd up wpn =
     (case effect up of
        Damage v \<Rightarrow> wpn\<lparr>damage_bonus := damage_bonus wpn + v\<rparr>
      | Crit v \<Rightarrow> wpn\<lparr>crit_bonus := min 0.75 (fadd rnd (crit_bonus wpn) v)\<rparr>
      | Speed v \<Rightarrow> wpn\<lparr>speed_bonus := speed_bonus wpn + v\<rparr>)"

definition upgrade_weapon :: "rounding \<Rightarrow> upgrade \<Rightarrow> ref \<Rightarrow> world \<Rightarrow> world" where
  "upgrade_weapon rnd up wpn w =
     w\<lparr>weapon_at := (weapon_at w)(wpn := apply_upgrade rnd up (weapon_at w wpn))\<rparr>"

text \<open>
  Lines 163 to 173: the purchase of the chosen upgrade. It is refused, with the line
  \<open>Not enough gold.\<close>, when the gold is less than the cost; the shop goes on either way.
\<close>

definition buy_upgrade :: "rounding \<Rightarrow> upgrade \<Rightarrow> int \<Rightarrow> ref \<Rightarrow> world \<Rightarrow> int \<times> world" where
  "buy_upgrade rnd up gold wpn w =
     (if gold < cost up then (gold, print Not_enough_gold w)
      else (gold - cost up, upgrade_weapon rnd up wpn w))"

function run_upgrade_shop :: "rounding \<Rightarrow> int \<Rightarrow> ref \<Rightarrow> world \<Rightarrow> error + (int \<times> world)" where
  "run_upgrade_shop rnd gold wpn w =
     (case read_line w of
        Inl e \<Rightarrow> Inl e
      | Inr (choice, w1) \<Rightarrow>
          (case choice of
             Done \<Rightarrow> Inr (gold, w1)
           | Other \<Rightarrow> run_upgrade_shop rnd gold wpn (print Invalid_choice w1)
           | Odd_digits \<Rightarrow> Inl ValueError
           | Digits n \<Rightarrow>
               if \<not> (1 \<le> n \<and> n \<le> length (UPGRADES rnd))
               then run_upgrade_shop rnd gold wpn (print Invalid_choice w1)
               else let (gold', w2) = buy_upgrade rnd (UPGRADES rnd ! (n - 1)) gold wpn w1
                    in run_upgrade_shop rnd gold' wpn w2))"
  by pat_completeness auto
termination
  by (relation "measure (\<lambda>(rnd, gold, wpn, w). length (stdin w))")
     (auto simp: read_line_def print_def upgrade_weapon_def buy_upgrade_def
           split: list.splits if_splits)

text \<open>
  The loop of \<open>ai_buy_units\<close> runs as long as the random source keeps picking a unit that
  costs more than the gold left, so it need not return: not returning is \<open>None\<close>.
\<close>

partial_function (option) ai_buy_units ::
  "rounding \<Rightarrow> int \<Rightarrow> Team \<Rightarrow> world \<Rightarrow> (int \<times> Team \<times> world) option" where
  "ai_buy_units rnd gold team w =
     (let choices = UNIT_CATALOG rnd
      in if gold \<ge> min_list (map t_cost choices) \<and> length (units team) < MAX_UNITS
         then (let (pick, w1) = random_choice w choices
               in if t_cost pick > gold then ai_buy_units rnd gold team w1
                  else let (u, w2) = create_unit pick w1
                       in ai_buy_units rnd (gold - t_cost pick)
                            (team\<lparr>units := units team @ [u]\<rparr>) w2)
         else Some (gold, team, w))"

declare ai_buy_units.simps [code]

definition ai_upgrade_weapon :: "rounding \<Rightarrow> int \<Rightarrow> ref \<Rightarrow> world \<Rightarrow> int \<times> world" where
  "ai_upgrade_weapon rnd gold wpn w =
     (let affordable = filter (\<lambda>u. cost u \<le> gold) (UPGRADES rnd)
      in if affordable = [] then (gold, w)
         else let (up, w1) = random_choice w affordable
              in (gold - cost up, upgrade_weapon rnd up wpn w1))"

section \<open>Match state machine\<close>

text \<open>
  \<open>main\<close> is modelled step by step, so that every state between two operations can be
  spoken about. A state holds the local variables of \<open>main\<close>, the process state and the
  point the program is at. When a shop raises, \<open>main\<close> ends with that exception. The
  program starts with no object created, nothing printed, and the random source and the
  input it is given.
\<close>

datatype point =
  At_prematch_shop
| At_ai_buy
| At_fight
| At_income
| At_upgrade_shop
| At_ai_upgrade
| Game_over string
| Raised error

record match =
  env :: world
  player_weapon :: ref
  enemy_weapon :: ref
  player_team :: Team
  enemy_team :: Team
  player_gold :: int
  enemy_gold :: int
  round_num :: int
  stage :: point

definition blank_unit :: Unit where
  "blank_unit = \<lparr>name = [], max_hp = 0, attack = 0, defense = 0, crit = 0, speed = 0,
                  is_hero = False, weapon = None, hp = 0\<rparr>"

definition boot :: "(nat \<Rightarrow> nat) \<Rightarrow> (nat \<Rightarrow> real) \<Rightarrow> line list \<Rightarrow> world" where
  "boot ps rs inp =
     \<lparr>unit_at = (\<lambda>r. blank_unit), weapon_at = (\<lambda>r. Weapon_default),
      unit_count = 0, weapon_count = 0,
      picks = ps, rolls = rs, drawn = 0, stdin = inp, stdout = []\<rparr>"

text \<open>Lines 250 to 257 and 262.\<close>

definition main_init :: "rounding \<Rightarrow> world \<Rightarrow> match" where
  "main_init rnd w =
     (let (pw, w1) = new_weapon Weapon_default w;
          (ew, w2) = new_weapon Weapon_default w1;
          (hero, w3) = create_hero rnd ''Hero'' pw w2;
          (warlord, w4) = create_hero rnd ''Warlord'' ew w3
      in \<lparr>env = w4, player_weapon = pw, enemy_weapon = ew,
          player_team = \<lparr>team_name = ''Player'', units = [hero]\<rparr>,
          enemy_team = \<lparr>team_name = ''Enemy'', units = [warlord]\<rparr>,
          player_gold = START_GOLD, enemy_gold = START_GOLD,
          round_num = 1, stage = At_prematch_shop\<rparr>)"

text \<open>
  One operation of \<open>main\<close>: line 259, line 260, lines 264 to 276, lines 278 and 279,
  line 280, lines 281 and 283. There is no step after the match has ended, and none when
  \<open>ai_buy_units\<close> does not return.
\<close>

definition main_step :: "rounding \<Rightarrow> match \<Rightarrow> match option" where
  "main_step rnd m =
     (case stage m of
        At_prematch_shop \<Rightarrow>
          (case run_prematch_shop rnd (player_gold m) (player_team m) (env m) of
             Inl e \<Rightarrow> Some (m\<lparr>stage := Raised e\<rparr>)
           | Inr (gold, team, w) \<Rightarrow>
               Some (m\<lparr>env := w, player_team := team, player_gold := gold, stage := At_ai_buy\<rparr>))
      | At_ai_buy \<Rightarrow>
          (case ai_buy_units rnd (enemy_gold m) (enemy_team m) (env m) of
             None \<Rightarrow> None
           | Some (gold, team, w) \<Rightarrow>
               Some (m\<lparr>env := w, enemy_team := team, enemy_gold := gold, stage := At_fight\<rparr>))
      | At_fight \<Rightarrow>
          (let (result, w) = fight_round rnd (player_team m) (enemy_team m) (env m)
           in Some (m\<lparr>env := w,
                      stage := (if result = ''player'' \<or> result = ''enemy'' \<or> result = ''draw''
                             then Game_over result else At_income)\<rparr>))
      | At_income \<Rightarrow>
          Some (m\<lparr>player_gold := player_gold m + (ROUND_INCOME + 2),
                  enemy_gold := enemy_gold m + (ROUND_INCOME + 2),
                  stage := At_upgrade_shop\<rparr>)
      | At_upgrade_shop \<Rightarrow>
          (case run_upgrade_shop rnd (player_gold m) (player_weapon m) (env m) of
             Inl e \<Rightarrow> Some (m\<lparr>stage := Raised e\<rparr>)
           | Inr (gold, w) \<Rightarrow> Some (m\<lparr>env := w, player_gold := gold, stage := At_ai_upgrade\<rparr>))
      | At_ai_upgrade \<Rightarrow>
          (let (gold, w) = ai_upgrade_weapon rnd (enemy_gold m) (enemy_weapon m) (env m)
           in Some (m\<lparr>env := w, enemy_gold := gold, round_num := round_num m + 1,
                      stage := At_fight\<rparr>))
      | Game_over result \<Rightarrow> None
      | Raised e \<Rightarrow> None)"

text \<open>The states a run of \<open>main\<close> goes through.\<close>

inductive reachable :: "rounding \<Rightarrow> world \<Rightarrow> match \<Rightarrow> bool" for rnd :: rounding and w0 :: world where
  start: "reachable rnd w0 (main_init rnd w0)"
| step: "reachable rnd w0 m \<Longrightarrow> main_step rnd m = Some m' \<Longrightarrow> reachable rnd w0 m'"

section \<open>Notions used by the statements\<close>

definition speed_at :: "world \<Rightarrow> ref \<Rightarrow> int" where
  "speed_at w r = effective_speed (weapon_at w) (unit_at w r)"

text \<open>
  What holds of the store at every moment of a match: every unit created so far has its
  health between 0 and its maximum and is either a hero with a weapon or has the base
  crit of a catalog entry, and no weapon has a crit bonus above 0.75.
\<close>

definition sound :: "rounding \<Rightarrow> world \<Rightarrow> bool" where
  "sound rnd w \<longleftrightarrow>
     (\<forall>r<unit_count w.
        0 \<le> hp (unit_at w r) \<and> hp (unit_at w r) \<le> max_hp (unit_at w r)
        \<and> ((is_hero (unit_at w r) \<and> weapon (unit_at w r) \<noteq> None)
            \<or> crit (unit_at w r) \<in> t_crit ` set (UNIT_CATALOG rnd)))
     \<and> (\<forall>r. crit_bonus (weapon_at w r) \<le> 0.75)"

text \<open>
  How an operation may change the store: units are only added, and a unit that exists
  changes in its health only, which does not go up.
\<close>

definition advances :: "world \<Rightarrow> world \<Rightarrow> bool" where
  "advances w w' \<longleftrightarrow>
     unit_count w \<le> unit_count w'
     \<and> (\<forall>r<unit_count w.
          unit_at w' r = (unit_at w r)\<lparr>hp := hp (unit_at w' r)\<rparr>
          \<and> hp (unit_at w' r) \<le> hp (unit_at w r))"

definition kept :: "rounding \<Rightarrow> world \<Rightarrow> world \<Rightarrow> bool" where
  "kept rnd w w' \<longleftrightarrow> advances w w' \<and> (sound rnd w \<longrightarrow> sound rnd w')"

text \<open>The units of a team have been created.\<close>

definition roster_in :: "world \<Rightarrow> Team \<Rightarrow> bool" where
  "roster_in w t \<longleftrightarrow> (\<forall>r \<in> set (units t). r < unit_count w)"

text \<open>What holds of a state of \<open>main\<close>: in addition, no gold balance is negative.\<close>

definition match_ok :: "rounding \<Rightarrow> match \<Rightarrow> bool" where
  "match_ok rnd m \<longleftrightarrow>
     sound rnd (env m) \<and> roster_in (env m) (player_team m) \<and> roster_in (env m) (enemy_team m)
     \<and> 0 \<le> player_gold m \<and> 0 \<le> enemy_gold m"

text \<open>
  A small arena for concrete runs: a hero with a fresh weapon (reference 0) on the player
  team and an Archer (reference 1) on the enemy team, exact arithmetic as rounding.
\<close>

definition arena :: world where
  "arena =
     (let (pw, w1) = new_weapon Weapon_default (boot (\<lambda>k. 0) (\<lambda>k. 1) []);
          (h, w2) = create_hero id ''Hero'' pw w1;
          (a, w3) = create_unit (UNIT_CATALOG id ! 1) w2
      in w3)"

definition arena_player :: Team where
  "arena_player = \<lparr>team_name = ''Player'', units = [0]\<rparr>"

definition arena_enemy :: Team where
  "arena_enemy = \<lparr>team_name = ''Enemy'', units = [1]\<rparr>"

text \<open>
  A run of \<open>main\<close> for concrete states: \<open>steps rnd n m\<close> is the state \<open>n\<close> operations after
  \<open>m\<close> (or the last state there is). In the demonstration the player buys nothing before
  the match and the damage upgrade after the first round, the random source always
  draws index 2 and never rolls a critical hit, and arithmetic is exact.
\<close>

fun steps :: "rounding \<Rightarrow> nat \<Rightarrow> match \<Rightarrow> match" where
  "steps rnd 0 m = m"
| "steps rnd (Suc n) m =
     (case main_step rnd (steps rnd n m) of None \<Rightarrow> steps rnd n m | Some m' \<Rightarrow> m')"

definition demo_boot :: world where
  "demo_boot = boot (\<lambda>k. 2) (\<lambda>k. 1) [Done, Digits 1, Done]"

definition demo :: "nat \<Rightarrow> match" where
  "demo n = steps id n (main_init id demo_boot)"

text \<open>The Archer of the arena after a hit that took all its health.\<close>

definition fallen_archer :: Unit where
  "fallen_archer = fst (take_hit (unit_at arena 1) 100)"

definition arena_fallen :: world where
  "arena_fallen = arena\<lparr>unit_at := (unit_at arena)(1 := fallen_archer)\<rparr>"

section \<open>The hit-resolution operation\<close>

text \<open>
  C1. For every unit and every raw damage (non-negative or not), \<open>take_hit\<close> computes the
  mitigated damage \<open>max(1, raw_damage - defense)\<close>, which is at least 1 however large the
  defense is; the new health is the old health minus the mitigated damage, floored at 0;
  no other field changes; and the mitigated damage is what the method returns.
\<close>

theorem take_hit_mitigated:
  "snd (take_hit u raw_damage) = max 1 (raw_damage - defense u)
   \<and> 1 \<le> snd (take_hit u raw_damage)
   \<and> hp (fst (take_hit u raw_damage)) = max 0 (hp u - snd (take_hit u raw_damage))
   \<and> fst (take_hit u raw_damage) = u\<lparr>hp := max 0 (hp u - max 1 (raw_damage - defense u))\<rparr>"
  by (simp add: take_hit_def Let_def)


section \<open>Turn order\<close>

lemma sort_reverse_sorted:
  "sorted_wrt (\<lambda>a b. key b \<le> key a) (sort_reverse key xs)"
proof -
  have "sorted (map (\<lambda>x. - key x) (sort_key (\<lambda>x. - key x) xs))"
    by (rule sorted_sort_key)
  then show ?thesis
    by (simp add: sort_reverse_def sorted_map)
qed

lemma sort_reverse_stable:
  "filter (\<lambda>x. key x = k) (sort_reverse key xs) = filter (\<lambda>x. key x = k) xs"
proof -
  have "filter (\<lambda>x. - key x = - k) (sort_key (\<lambda>x. - key x) xs)
        = filter (\<lambda>x. - key x = - k) xs"
    by (rule sort_key_stable)
  then show ?thesis
    by (simp add: sort_reverse_def)
qed

lemma sort_reverse_mset: "mset (sort_reverse key xs) = mset xs"
  by (simp add: sort_reverse_def)

lemma sort_reverse_set: "set (sort_reverse key xs) = set xs"
  by (simp add: sort_reverse_def)

lemma descending_distinct_strict:
  "sorted_wrt (\<lambda>a b. key b \<le> key a) ys \<Longrightarrow> distinct (map key ys)
   \<Longrightarrow> sorted_wrt (\<lambda>a b. (key b :: int) < key a) ys"
proof (induction ys)
  case Nil
  then show ?case by simp
next
  case (Cons a ys)
  have "key x < key a" if "x \<in> set ys" for x
  proof -
    have "key x \<le> key a" using Cons.prems(1) that by simp
    moreover have "key x \<noteq> key a" using Cons.prems(2) that by (auto simp: image_iff)
    ultimately show ?thesis by simp
  qed
  then show ?case using Cons by simp
qed

lemma sort_reverse_strict:
  assumes "distinct (map key xs)"
  shows "sorted_wrt (\<lambda>a b. key b < key a) (sort_reverse key xs)"
proof -
  have "mset (map key (sort_reverse key xs)) = mset (map key xs)"
    by (simp add: sort_reverse_mset)
  then have d: "distinct (map key (sort_reverse key xs))"
    using assms by (metis mset_eq_imp_distinct_iff)
  have s: "sorted_wrt (\<lambda>a b. key b \<le> key a) (sort_reverse key xs)"
    by (rule sort_reverse_sorted)
  show ?thesis
    using s d by (rule descending_distinct_strict)
qed

lemma arena_objects:
  "unit_at arena 0 = \<lparr>name = ''Hero'', max_hp = 30, attack = 8, defense = 2, crit = 0.1,
     speed = 6, is_hero = True, weapon = Some 0, hp = 30\<rparr>"
  "unit_at arena (Suc 0) = \<lparr>name = ''Archer'', max_hp = 18, attack = 9, defense = 1, crit = 0.1,
     speed = 7, is_hero = False, weapon = None, hp = 18\<rparr>"
  "weapon_at arena 0 = \<lparr>damage_bonus = 0, crit_bonus = 0, speed_bonus = 0\<rparr>"
  by (simp_all add: arena_def boot_def new_weapon_def create_hero_def create_unit_def
      new_unit_def post_init_def UNIT_CATALOG_def Weapon_default_def)

text \<open>
  C3. The turn order of a round is the alive members of the player team followed by the
  alive members of the enemy team, sorted stably and descending by effective speed: it
  holds the same units, every unit is at least as fast as those after it, and the units
  of any one speed \<open>k\<close> come in the order of the concatenation, the player team's (in
  roster order) before the enemy team's (in roster order). These three facts fix the
  order. When the effective speeds are pairwise distinct, it is strictly descending.
\<close>

theorem turn_order_stable_descending:
  "mset (turn_order w player enemy) = mset (alive_units w player @ alive_units w enemy)
   \<and> sorted_wrt (\<lambda>a b. speed_at w b \<le> speed_at w a) (turn_order w player enemy)
   \<and> filter (\<lambda>r. speed_at w r = k) (turn_order w player enemy)
       = filter (\<lambda>r. speed_at w r = k) (alive_units w player)
         @ filter (\<lambda>r. speed_at w r = k) (alive_units w enemy)
   \<and> (distinct (map (speed_at w) (alive_units w player @ alive_units w enemy))
        \<longrightarrow> sorted_wrt (\<lambda>a b. speed_at w b < speed_at w a) (turn_order w player enemy))"
proof -
  have eq: "turn_order w player enemy
            = sort_reverse (speed_at w) (alive_units w player @ alive_units w enemy)"
    by (simp add: turn_order_def speed_at_def [abs_def])
  show ?thesis
    unfolding eq
    using sort_reverse_sorted [of "speed_at w"] sort_reverse_stable [of "speed_at w" k]
      sort_reverse_strict [of "speed_at w"]
    by (simp add: sort_reverse_mset)
qed

theorem turn_order_stable_descending_witness:
  "distinct (map (speed_at arena) (alive_units arena arena_player @ alive_units arena arena_enemy))
   \<and> sorted_wrt (\<lambda>a b. speed_at arena b < speed_at arena a)
        (turn_order arena arena_player arena_enemy)
   \<and> turn_order arena arena_player arena_enemy = [1, 0]"
proof -
  have alive: "alive_units arena arena_player @ alive_units arena arena_enemy = [0, 1]"
    by (simp add: alive_units_def arena_player_def arena_enemy_def arena_objects is_alive_def)
  have d: "distinct (map (speed_at arena) (alive_units arena arena_player @ alive_units arena arena_enemy))"
    unfolding alive by (simp add: speed_at_def effective_speed_def arena_objects)
  have order: "turn_order arena arena_player arena_enemy = [1, 0]"
    unfolding turn_order_def alive
    by (simp add: sort_reverse_def effective_speed_def arena_objects)
  from d turn_order_stable_descending [of arena arena_player arena_enemy]
  have "sorted_wrt (\<lambda>a b. speed_at arena b < speed_at arena a)
          (turn_order arena arena_player arena_enemy)"
    by blast
  with d order show ?thesis by blast
qed

section \<open>Round outcome\<close>

text \<open>
  C6. \<open>fight_round\<close> always returns, and what it returns is one of the four texts
  \<open>continue\<close>, \<open>player\<close>, \<open>enemy\<close>, \<open>draw\<close>, which are pairwise different. With the
  numbers of alive units of the two teams counted after the round: \<open>draw\<close> exactly when
  both are zero, \<open>player\<close> exactly when only the enemy's is zero, \<open>enemy\<close> exactly when
  only the player's is zero, \<open>continue\<close> exactly when neither is zero.
\<close>

theorem fight_round_outcome:
  "fst (fight_round rnd player enemy w) \<in> {''continue'', ''player'', ''enemy'', ''draw''}
   \<and> distinct [''continue'', ''player'', ''enemy'', ''draw'']
   \<and> (fst (fight_round rnd player enemy w) = ''draw'' \<longleftrightarrow>
        length (alive_units (snd (fight_round rnd player enemy w)) player) = 0
        \<and> length (alive_units (snd (fight_round rnd player enemy w)) enemy) = 0)
   \<and> (fst (fight_round rnd player enemy w) = ''player'' \<longleftrightarrow>
        length (alive_units (snd (fight_round rnd player enemy w)) player) \<noteq> 0
        \<and> length (alive_units (snd (fight_round rnd player enemy w)) enemy) = 0)
   \<and> (fst (fight_round rnd player enemy w) = ''enemy'' \<longleftrightarrow>
        length (alive_units (snd (fight_round rnd player enemy w)) player) = 0
        \<and> length (alive_units (snd (fight_round rnd player enemy w)) enemy) \<noteq> 0)
   \<and> (fst (fight_round rnd player enemy w) = ''continue'' \<longleftrightarrow>
        length (alive_units (snd (fight_round rnd player enemy w)) player) \<noteq> 0
        \<and> length (alive_units (snd (fight_round rnd player enemy w)) enemy) \<noteq> 0)"
  by (simp add: fight_round_def classify_def Let_def)



section \<open>A side that is already defeated\<close>

lemma fallen_archer_fields:
  "fallen_archer = \<lparr>name = ''Archer'', max_hp = 18, attack = 9, defense = 1, crit = 0.1,
     speed = 7, is_hero = False, weapon = None, hp = 0\<rparr>"
  by (simp add: fallen_archer_def take_hit_def arena_objects)

lemma sort_reverse_Nil: "sort_reverse key xs = [] \<longleftrightarrow> xs = []"
proof -
  have "length (sort_reverse key xs) = length xs"
    by (simp add: sort_reverse_def)
  then show ?thesis by (metis length_0_conv)
qed

lemma contains_dead_team:
  assumes dead: "alive_units w t = []" and alive: "is_alive (unit_at w a)"
  shows "\<not> contains w a (units t)"
proof -
  have "\<not> is_alive (unit_at w e)" if "e \<in> set (units t)" for e
    using dead that by (auto simp: alive_units_def filter_empty_conv)
  then have "a \<noteq> e \<and> \<not> unit_eq (weapon_at w) (unit_at w a) (unit_at w e)"
    if "e \<in> set (units t)" for e
    using alive that by (auto simp: unit_eq_def is_alive_def)
  then show ?thesis
    by (auto simp: contains_def list_ex_iff)
qed

lemma contains_member: "a \<in> set rs \<Longrightarrow> contains w a rs"
  by (auto simp: contains_def list_ex_iff)

lemma alive_units_alive: "a \<in> set (alive_units w t) \<Longrightarrow> is_alive (unit_at w a) \<and> a \<in> set (units t)"
  by (simp add: alive_units_def)

lemma fight_loop_enemy_only:
  assumes "alive_units w player = []" and "fighters \<noteq> []"
    and "set fighters \<subseteq> set (alive_units w enemy)"
  shows "fight_loop rnd player enemy fighters w = w"
proof (cases fighters)
  case Nil
  with assms show ?thesis by simp
next
  case (Cons a rest)
  then have a: "is_alive (unit_at w a)"
    using assms(3) alive_units_alive [of a w enemy] by auto
  then have "\<not> contains w a (units player)"
    using assms(1) by (simp add: contains_dead_team)
  with a Cons assms(1) show ?thesis by simp
qed

lemma fight_loop_player_only:
  assumes "alive_units w enemy = []" and "fighters \<noteq> []"
    and "set fighters \<subseteq> set (alive_units w player)"
  shows "fight_loop rnd player enemy fighters w = w"
proof (cases fighters)
  case Nil
  with assms show ?thesis by simp
next
  case (Cons a rest)
  then have a: "is_alive (unit_at w a) \<and> a \<in> set (units player)"
    using assms(3) alive_units_alive [of a w player] by auto
  then have "contains w a (units player)"
    by (simp add: contains_member)
  with a Cons assms(1) show ?thesis by simp
qed

text \<open>
  C7. When the player team has no alive member and the enemy team has one, the round
  returns \<open>enemy\<close>; when the enemy team has no alive member and the player team has one,
  it returns \<open>player\<close>. In both cases no attack is made: the whole state after the round
  is the state before it, so no unit's health has changed.
\<close>

theorem fight_round_defeated_side:
  "(alive_units w player = [] \<and> alive_units w enemy \<noteq> []
      \<longrightarrow> fight_round rnd player enemy w = (''enemy'', w))
   \<and> (alive_units w enemy = [] \<and> alive_units w player \<noteq> []
      \<longrightarrow> fight_round rnd player enemy w = (''player'', w))"
proof (intro conjI impI)
  assume h: "alive_units w player = [] \<and> alive_units w enemy \<noteq> []"
  have "turn_order w player enemy \<noteq> []"
    using h by (simp add: turn_order_def sort_reverse_Nil)
  moreover have "set (turn_order w player enemy) \<subseteq> set (alive_units w enemy)"
    using h by (simp add: turn_order_def sort_reverse_set)
  ultimately have "fight_loop rnd player enemy (turn_order w player enemy) w = w"
    using h by (simp add: fight_loop_enemy_only)
  then show "fight_round rnd player enemy w = (''enemy'', w)"
    using h by (simp add: fight_round_def classify_def)
next
  assume h: "alive_units w enemy = [] \<and> alive_units w player \<noteq> []"
  have "turn_order w player enemy \<noteq> []"
    using h by (simp add: turn_order_def sort_reverse_Nil)
  moreover have "set (turn_order w player enemy) \<subseteq> set (alive_units w player)"
    using h by (simp add: turn_order_def sort_reverse_set)
  ultimately have "fight_loop rnd player enemy (turn_order w player enemy) w = w"
    using h by (simp add: fight_loop_player_only)
  then show "fight_round rnd player enemy w = (''player'', w)"
    using h by (simp add: fight_round_def classify_def)
qed

theorem fight_round_defeated_side_witness:
  "alive_units arena_fallen arena_enemy = [] \<and> alive_units arena_fallen arena_player \<noteq> []
   \<and> fight_round id arena_player arena_enemy arena_fallen = (''player'', arena_fallen)
   \<and> fight_round id arena_enemy arena_player arena_fallen = (''enemy'', arena_fallen)"
proof -
  have e: "alive_units arena_fallen arena_enemy = []"
    by (simp add: alive_units_def arena_enemy_def arena_fallen_def fallen_archer_fields
        is_alive_def)
  have p: "alive_units arena_fallen arena_player \<noteq> []"
    by (simp add: alive_units_def arena_player_def arena_fallen_def arena_objects is_alive_def)
  from e p fight_round_defeated_side [of arena_fallen arena_player arena_enemy id]
  have "fight_round id arena_player arena_enemy arena_fallen = (''player'', arena_fallen)"
    by blast
  moreover from e p fight_round_defeated_side [of arena_fallen arena_enemy arena_player id]
  have "fight_round id arena_enemy arena_player arena_fallen = (''enemy'', arena_fallen)"
    by blast
  ultimately show ?thesis using e p by blast
qed

section \<open>Hitting a unit that is already dead\<close>

text \<open>
  C9, as the claim states it, fails: a hit on a unit with no health left is not refused
  and does not return 0. On the fallen Archer (health 0, defense 1) a hit of raw damage 9
  returns 8.
\<close>

theorem take_hit_dead_counterexample:
  "hp fallen_archer = 0 \<and> snd (take_hit fallen_archer 9) = 8
   \<and> \<not> snd (take_hit fallen_archer 9) \<le> 0"
  by (simp add: fallen_archer_fields take_hit_def)

text \<open>
  C9, amended. A hit on a unit whose health is already 0 leaves the unit as it is; it is
  not refused, and it returns the mitigated damage \<open>max(1, raw_damage - defense)\<close>, which
  is at least 1.
\<close>

theorem take_hit_dead:
  "hp u = 0 \<Longrightarrow>
     fst (take_hit u raw_damage) = u
     \<and> snd (take_hit u raw_damage) = max 1 (raw_damage - defense u)
     \<and> 1 \<le> snd (take_hit u raw_damage)"
  by (simp add: take_hit_def Let_def)

theorem take_hit_dead_witness:
  "hp fallen_archer = 0 \<and> fst (take_hit fallen_archer 9) = fallen_archer
   \<and> snd (take_hit fallen_archer 9) = max 1 (9 - defense fallen_archer)
   \<and> 1 \<le> snd (take_hit fallen_archer 9)"
proof -
  have h: "hp fallen_archer = 0"
    by (simp add: fallen_archer_fields)
  show ?thesis
    using h take_hit_dead [OF h, of 9] by simp
qed



section \<open>Damage of an attack\<close>

lemma crit_damage_exact:
  fixes rnd :: rounding and d :: int
  assumes mono: "mono rnd"
    and eighths: "\<And>k::int. \<bar>k\<bar> < 2 ^ 52 \<Longrightarrow> rnd (of_int k / 8) = of_int k / 8"
    and lo: "9 / 5 \<le> rnd 1.8" and hi: "rnd 1.8 \<le> 9 / 5 + 1 / 2 ^ 50"
    and d0: "0 \<le> d" and d1: "d < 2 ^ 40"
  shows "int_of_float (fmul rnd (float_of_int rnd d) (rnd 1.8)) = (d * 9) div 5"
proof -
  define q where "q = (d * 9) div 5"
  define p where "p = real_of_int d * rnd 1.8"
  have q0: "0 \<le> q" and q1: "q < 2 ^ 41"
    using d0 d1 by (auto simp: q_def)
  have "q * 5 \<le> d * 9" and "d * 9 \<le> q * 5 + 4"
    unfolding q_def by presburger+
  then have "real_of_int (q * 5) \<le> real_of_int (d * 9)"
    and "real_of_int (d * 9) \<le> real_of_int (q * 5 + 4)"
    by (simp_all only: of_int_le_iff)
  then have qlo: "real_of_int q \<le> real_of_int d * (9 / 5)"
    and qhi: "real_of_int d * (9 / 5) \<le> real_of_int q + 4 / 5"
    by simp_all
  have dr: "0 \<le> real_of_int d"
    using d0 by simp
  have "d \<le> 2 ^ 40"
    using d1 by simp
  then have "real_of_int d \<le> real_of_int (2 ^ 40)"
    by (simp only: of_int_le_iff)
  then have dr1: "real_of_int d \<le> 2 ^ 40"
    by simp
  have "rnd (real_of_int (8 * d) / 8) = real_of_int (8 * d) / 8"
    using d0 d1 by (intro eighths) simp
  then have rd: "rnd (real_of_int d) = real_of_int d"
    by simp
  have plo: "real_of_int q \<le> p"
  proof -
    have "real_of_int d * (9 / 5) \<le> real_of_int d * rnd 1.8"
      using lo dr by (intro mult_left_mono) simp_all
    with qlo show ?thesis by (simp add: p_def)
  qed
  have phi: "p \<le> real_of_int q + 7 / 8"
  proof -
    have "p \<le> real_of_int d * (9 / 5 + 1 / 2 ^ 50)"
      unfolding p_def using hi dr by (intro mult_left_mono) simp_all
    also have "\<dots> = real_of_int d * (9 / 5) + real_of_int d / 2 ^ 50"
      by (simp add: algebra_simps)
    also have "\<dots> \<le> (real_of_int q + 4 / 5) + 2 ^ 40 / 2 ^ 50"
      using qhi dr1 by (intro add_mono divide_right_mono) simp_all
    also have "\<dots> \<le> real_of_int q + 7 / 8"
      by simp
    finally show ?thesis .
  qed
  have "rnd (real_of_int (8 * q) / 8) = real_of_int (8 * q) / 8"
    using q0 q1 by (intro eighths) simp
  then have rq: "rnd (real_of_int q) = real_of_int q"
    by simp
  have "rnd (real_of_int (8 * q + 7) / 8) = real_of_int (8 * q + 7) / 8"
    using q0 q1 by (intro eighths) simp
  then have rq7: "rnd (real_of_int q + 7 / 8) = real_of_int q + 7 / 8"
    by (simp add: add_divide_distrib)
  have "rnd (real_of_int q) \<le> rnd p" and "rnd p \<le> rnd (real_of_int q + 7 / 8)"
    using mono plo phi by (auto dest: monoD)
  then have b: "real_of_int q \<le> rnd p" "rnd p < real_of_int q + 1"
    using rq rq7 by simp_all
  then have "\<lfloor>rnd p\<rfloor> = q"
    by (simp add: floor_unique)
  moreover have "0 \<le> rnd p"
    using b(1) q0 by simp
  ultimately show ?thesis
    by (simp add: int_of_float_def fmul_def float_of_int_def rd p_def q_def)
qed

lemma attack_damage_drawn [simp]:
  "attack_damage rnd (w\<lparr>drawn := n\<rparr>) a roll = attack_damage rnd w a roll"
  by (simp add: attack_damage_def)

lemma attack_turn_units:
  "unit_at (attack_turn rnd a targets w)
   = (unit_at w)(targets ! (picks w (drawn w) mod length targets) :=
       fst (take_hit (unit_at w (targets ! (picks w (drawn w) mod length targets)))
              (fst (attack_damage rnd w a (rolls w (drawn w + 1))))))"
  by (simp add: attack_turn_def random_choice_def random_random_def Let_def split_def)

text \<open>
  C4. The damage of an attack is the attacker's effective attack, unless the roll drawn
  for the attack is below the attacker's effective crit: then it is the effective attack
  times 1.8 in float arithmetic, truncated toward zero. The damage so computed is what
  the target's \<open>take_hit\<close> receives, and only the target changes. Whenever rounding is
  monotone, keeps \<open>k / 8\<close> for every integer \<open>k\<close> of magnitude below \<open>2 ^ 52\<close> and puts the
  literal 1.8 at most \<open>1 / 2 ^ 50\<close> above 9/5 (as binary64 does), the critical damage of an
  effective attack from 0 to \<open>2 ^ 40\<close> is the exact product truncated:
  \<open>\<lfloor>attack * 9 / 5\<rfloor>\<close>. The rolls of \<open>[0, 1)\<close> that make a critical hit are those of
  \<open>[0, crit)\<close>, an interval of length \<open>crit\<close> when \<open>crit\<close> is between 0 and 1.
\<close>

theorem attack_damage_rule:
  "attack_damage rnd w a roll =
     (if roll < effective_crit rnd (weapon_at w) (unit_at w a)
      then (int_of_float
              (rnd (rnd (real_of_int (effective_attack (weapon_at w) (unit_at w a))) * rnd 1.8)),
            '' CRIT!'')
      else (effective_attack (weapon_at w) (unit_at w a), []))
   \<and> (targets \<noteq> [] \<longrightarrow>
        (let target = targets ! (picks w (drawn w) mod length targets);
             drawn_roll = rolls w (drawn w + 1)
         in target \<in> set targets
            \<and> unit_at (attack_turn rnd a targets w)
                = (unit_at w)(target :=
                     fst (take_hit (unit_at w target) (fst (attack_damage rnd w a drawn_roll))))))
   \<and> (mono rnd \<and> (\<forall>k::int. \<bar>k\<bar> < 2 ^ 52 \<longrightarrow> rnd (of_int k / 8) = of_int k / 8)
        \<and> 9 / 5 \<le> rnd 1.8 \<and> rnd 1.8 \<le> 9 / 5 + 1 / 2 ^ 50
        \<and> 0 \<le> effective_attack (weapon_at w) (unit_at w a)
        \<and> effective_attack (weapon_at w) (unit_at w a) < 2 ^ 40
        \<and> roll < effective_crit rnd (weapon_at w) (unit_at w a)
      \<longrightarrow> fst (attack_damage rnd w a roll)
            = \<lfloor>real_of_int (effective_attack (weapon_at w) (unit_at w a)) * 9 / 5\<rfloor>)
   \<and> (0 \<le> effective_crit rnd (weapon_at w) (unit_at w a)
        \<and> effective_crit rnd (weapon_at w) (unit_at w a) \<le> 1
      \<longrightarrow> {r. 0 \<le> r \<and> r < 1 \<and> snd (attack_damage rnd w a r) = '' CRIT!''}
            = {0 ..< effective_crit rnd (weapon_at w) (unit_at w a)})"
proof (intro conjI impI)
  show "attack_damage rnd w a roll =
     (if roll < effective_crit rnd (weapon_at w) (unit_at w a)
      then (int_of_float
              (rnd (rnd (real_of_int (effective_attack (weapon_at w) (unit_at w a))) * rnd 1.8)),
            '' CRIT!'')
      else (effective_attack (weapon_at w) (unit_at w a), []))"
    by (simp add: attack_damage_def fmul_def float_of_int_def Let_def)
next
  assume "targets \<noteq> []"
  then have "targets ! (picks w (drawn w) mod length targets) \<in> set targets"
    by simp
  then show "let target = targets ! (picks w (drawn w) mod length targets);
                 drawn_roll = rolls w (drawn w + 1)
             in target \<in> set targets
                \<and> unit_at (attack_turn rnd a targets w)
                    = (unit_at w)(target :=
                         fst (take_hit (unit_at w target)
                                (fst (attack_damage rnd w a drawn_roll))))"
    by (simp add: Let_def attack_turn_units)
next
  assume h: "mono rnd \<and> (\<forall>k::int. \<bar>k\<bar> < 2 ^ 52 \<longrightarrow> rnd (of_int k / 8) = of_int k / 8)
        \<and> 9 / 5 \<le> rnd 1.8 \<and> rnd 1.8 \<le> 9 / 5 + 1 / 2 ^ 50
        \<and> 0 \<le> effective_attack (weapon_at w) (unit_at w a)
        \<and> effective_attack (weapon_at w) (unit_at w a) < 2 ^ 40
        \<and> roll < effective_crit rnd (weapon_at w) (unit_at w a)"
  define d where "d = effective_attack (weapon_at w) (unit_at w a)"
  have "int_of_float (fmul rnd (float_of_int rnd d) (rnd 1.8)) = (d * 9) div 5"
    using h by (intro crit_damage_exact) (simp_all add: d_def)
  moreover have "\<lfloor>real_of_int d * 9 / 5\<rfloor> = (d * 9) div 5"
    using floor_divide_of_int_eq [of "d * 9" 5, where ?'a = real] by simp
  ultimately show "fst (attack_damage rnd w a roll)
        = \<lfloor>real_of_int (effective_attack (weapon_at w) (unit_at w a)) * 9 / 5\<rfloor>"
    using h by (simp add: attack_damage_def Let_def d_def)
next
  assume "0 \<le> effective_crit rnd (weapon_at w) (unit_at w a)
        \<and> effective_crit rnd (weapon_at w) (unit_at w a) \<le> 1"
  then show "{r. 0 \<le> r \<and> r < 1 \<and> snd (attack_damage rnd w a r) = '' CRIT!''}
            = {0 ..< effective_crit rnd (weapon_at w) (unit_at w a)}"
    by (auto simp: attack_damage_def Let_def)
qed

theorem attack_damage_rule_witness:
  "mono (id :: rounding) \<and> id (real_of_int 7 / 8) = real_of_int 7 / 8
   \<and> 9 / 5 \<le> id (1.8 :: real) \<and> id (1.8 :: real) \<le> 9 / 5 + 1 / 2 ^ 50
   \<and> effective_attack (weapon_at arena) (unit_at arena 0) = 8
   \<and> effective_crit id (weapon_at arena) (unit_at arena 0) = 0.1
   \<and> fst (attack_damage id arena 0 0) = 14
   \<and> [1 :: nat] \<noteq> []
   \<and> hp (unit_at (attack_turn id 0 [1] arena) 1) = 11
   \<and> {r. 0 \<le> r \<and> r < 1 \<and> snd (attack_damage id arena 0 r) = '' CRIT!''} = {0 ..< 0.1}"
proof -
  have atk: "effective_attack (weapon_at arena) (unit_at arena 0) = 8"
    by (simp add: effective_attack_def arena_objects)
  have crt: "effective_crit id (weapon_at arena) (unit_at arena 0) = 0.1"
    by (simp add: effective_crit_def fadd_def arena_objects)
  have rounding: "mono (id :: rounding)
      \<and> (\<forall>k::int. \<bar>k\<bar> < 2 ^ 52 \<longrightarrow> id (real_of_int k / 8) = real_of_int k / 8)
      \<and> 9 / 5 \<le> id (1.8 :: real) \<and> id (1.8 :: real) \<le> 9 / 5 + 1 / 2 ^ 50"
    by (simp add: mono_def)
  note rule = attack_damage_rule [of id arena 0 0 "[1]"]
  note exact = rule [THEN conjunct2, THEN conjunct2, THEN conjunct1]
  note turn = rule [THEN conjunct2, THEN conjunct1]
  note crit_rolls = rule [THEN conjunct2, THEN conjunct2, THEN conjunct2]
  have "fst (attack_damage id arena 0 0) = \<lfloor>real_of_int 8 * 9 / 5\<rfloor>"
    using exact rounding atk crt by simp
  then have crit_hit: "fst (attack_damage id arena 0 0) = 14"
    by simp
  have "unit_at (attack_turn id 0 [1] arena)
        = (unit_at arena)(1 := fst (take_hit (unit_at arena 1)
                                       (fst (attack_damage id arena 0 (rolls arena (drawn arena + 1))))))"
    using turn by (simp add: Let_def)
  moreover have "rolls arena k = 1" for k
    by (simp add: arena_def boot_def new_weapon_def create_hero_def create_unit_def
        new_unit_def split_def)
  ultimately have hit: "hp (unit_at (attack_turn id 0 [1] arena) 1) = 11"
    using atk crt by (simp add: attack_damage_def take_hit_def arena_objects)
  have rolls: "{r. 0 \<le> r \<and> r < 1 \<and> snd (attack_damage id arena 0 r) = '' CRIT!''} = {0 ..< 0.1}"
    using crit_rolls crt by simp
  with atk crt rounding crit_hit hit show ?thesis by simp
qed



section \<open>What every operation keeps\<close>

declare run_prematch_shop.simps [simp del]
declare run_upgrade_shop.simps [simp del]

lemma advances_refl: "advances w w"
  by (simp add: advances_def)

lemma advances_trans:
  assumes "advances w1 w2" and "advances w2 w3"
  shows "advances w1 w3"
  unfolding advances_def
proof (intro conjI allI impI)
  show "unit_count w1 \<le> unit_count w3"
    using assms by (simp add: advances_def)
next
  fix r assume r: "r < unit_count w1"
  then have r2: "r < unit_count w2"
    using assms(1) by (simp add: advances_def)
  have a: "unit_at w2 r = (unit_at w1 r)\<lparr>hp := hp (unit_at w2 r)\<rparr>"
    and b: "hp (unit_at w2 r) \<le> hp (unit_at w1 r)"
    using assms(1) r by (simp_all add: advances_def)
  have c: "unit_at w3 r = (unit_at w2 r)\<lparr>hp := hp (unit_at w3 r)\<rparr>"
    and d: "hp (unit_at w3 r) \<le> hp (unit_at w2 r)"
    using assms(2) r2 by (simp_all add: advances_def)
  show "unit_at w3 r = (unit_at w1 r)\<lparr>hp := hp (unit_at w3 r)\<rparr>"
    by (subst c, subst a) simp
  show "hp (unit_at w3 r) \<le> hp (unit_at w1 r)"
    using b d by simp
qed

lemma print_keeps:
  "sound rnd (print e w) = sound rnd w" "advances w (print e w)"
  "unit_count (print e w) = unit_count w" "stdin (print e w) = stdin w"
  by (simp_all add: print_def sound_def advances_def)

lemma read_line_keeps:
  assumes "read_line w = Inr (l, w1)"
  shows "sound rnd w1 = sound rnd w" "advances w w1" "unit_count w1 = unit_count w"
  using assms by (auto simp: read_line_def sound_def advances_def split: list.splits)

lemma random_choice_keeps:
  assumes "random_choice w xs = (x, w1)"
  shows "sound rnd w1 = sound rnd w" "advances w w1" "unit_count w1 = unit_count w"
    "xs \<noteq> [] \<Longrightarrow> x \<in> set xs"
  using assms by (auto simp: random_choice_def sound_def advances_def)

lemma create_unit_keeps:
  assumes "create_unit t w = (u, w1)" and "t \<in> set (UNIT_CATALOG rnd)"
  shows "sound rnd w \<Longrightarrow> sound rnd w1" "advances w w1"
    "u = unit_count w" "unit_count w1 = Suc (unit_count w)"
proof -
  have t: "0 \<le> t_max_hp t"
    using assms(2) by (auto simp: UNIT_CATALOG_def)
  have w1: "w1 = w\<lparr>unit_at := (unit_at w)(unit_count w :=
              \<lparr>name = t_name t, max_hp = t_max_hp t, attack = t_attack t,
               defense = t_defense t, crit = t_crit t, speed = t_speed t,
               is_hero = False, weapon = None, hp = t_max_hp t\<rparr>),
            unit_count := unit_count w + 1\<rparr>"
    and u: "u = unit_count w"
    using assms(1) by (auto simp: create_unit_def new_unit_def post_init_def)
  show "u = unit_count w" by (rule u)
  show "unit_count w1 = Suc (unit_count w)" by (simp add: w1)
  show "advances w w1" by (simp add: w1 advances_def)
  show "sound rnd w1" if "sound rnd w"
    using that t assms(2) by (auto simp: w1 sound_def less_Suc_eq)
qed

lemma kept_refl: "kept rnd w w"
  by (simp add: kept_def advances_refl)

lemma kept_trans: "kept rnd w1 w2 \<Longrightarrow> kept rnd w2 w3 \<Longrightarrow> kept rnd w1 w3"
  by (auto simp: kept_def intro: advances_trans)

lemma kept_count: "kept rnd w w' \<Longrightarrow> unit_count w \<le> unit_count w'"
  by (simp add: kept_def advances_def)

lemma kept_roster: "kept rnd w w' \<Longrightarrow> roster_in w t \<Longrightarrow> roster_in w' t"
  using kept_count [of rnd w w'] by (auto simp: roster_in_def)

lemma kept_print: "kept rnd w (print e w)"
  by (simp add: kept_def print_keeps)

lemma roster_print: "roster_in (print e w) t = roster_in w t"
  by (simp add: roster_in_def print_keeps)

lemma kept_read_line: "read_line w = Inr (l, w1) \<Longrightarrow> kept rnd w w1"
  by (simp add: kept_def read_line_keeps)

lemma kept_random_choice: "random_choice w xs = (x, w1) \<Longrightarrow> kept rnd w w1"
  by (simp add: kept_def random_choice_keeps)

lemma kept_create_unit:
  "create_unit t w = (u, w1) \<Longrightarrow> t \<in> set (UNIT_CATALOG rnd) \<Longrightarrow> kept rnd w w1"
  by (simp add: kept_def create_unit_keeps)

lemma roster_create_unit:
  assumes "create_unit t w = (u, w1)" and "t \<in> set (UNIT_CATALOG rnd)" and "roster_in w team"
  shows "roster_in w1 (team\<lparr>units := units team @ [u]\<rparr>)"
  using assms create_unit_keeps(3,4) [OF assms(1,2)]
  by (auto simp: roster_in_def less_Suc_eq)

lemma menu_pick: "1 \<le> n \<and> n \<le> length xs \<Longrightarrow> xs ! (n - 1) \<in> set xs"
  by (intro nth_mem) auto

lemma catalog_cost: "t \<in> set (UNIT_CATALOG rnd) \<Longrightarrow> 0 < t_cost t"
  by (auto simp: UNIT_CATALOG_def)

lemma upgrades_cost: "up \<in> set (UPGRADES rnd) \<Longrightarrow> 0 < cost up"
  by (auto simp: UPGRADES_def)

lemma run_prematch_shop_keeps:
  "run_prematch_shop rnd gold team w = Inr (g, team', w') \<Longrightarrow>
     kept rnd w w' \<and> (roster_in w team \<longrightarrow> roster_in w' team')
     \<and> (0 \<le> gold \<longrightarrow> 0 \<le> g \<and> g \<le> gold)"
proof (induction rnd gold team w rule: run_prematch_shop.induct)
  case (1 rnd gold team w)
  note run = "1.prems" [unfolded run_prematch_shop.simps [of rnd gold team w]]
  show ?case
  proof (cases "MAX_UNITS \<le> length (units team)")
    case True
    with run show ?thesis
      by (auto simp: kept_print roster_print)
  next
    case False
    show ?thesis
    proof (cases "read_line w")
      case (Inl e)
      with run False show ?thesis by simp
    next
      case (Inr b)
      obtain l w1 where b: "(l, w1) = b" by (cases b) auto
      have k1: "kept rnd w w1"
        using Inr b by (auto intro: kept_read_line)
      have via_print: "kept rnd w w' \<and> (roster_in w team \<longrightarrow> roster_in w' team')
          \<and> (0 \<le> gold \<longrightarrow> 0 \<le> g \<and> g \<le> gold)"
        if ih: "kept rnd (print e w1) w' \<and> (roster_in (print e w1) team \<longrightarrow> roster_in w' team')
          \<and> (0 \<le> gold \<longrightarrow> 0 \<le> g \<and> g \<le> gold)" for e
      proof -
        have "kept rnd w (print e w1)"
          using k1 kept_print by (rule kept_trans)
        then have "kept rnd w w'"
          using ih by (blast intro: kept_trans)
        moreover have "roster_in w' team'" if "roster_in w team"
          using that kept_roster [OF k1] ih by (simp add: roster_print)
        ultimately show ?thesis using ih by simp
      qed
      show ?thesis
      proof (cases l)
        case Done
        with run False Inr b k1 kept_roster [OF k1] show ?thesis
          by auto
      next
        case Other
        with run False Inr b
        have "run_prematch_shop rnd gold team (print Invalid_choice w1) = Inr (g, team', w')"
          by auto
        from "1.IH"(4) [OF False Inr b Other this] show ?thesis
          by (rule via_print)
      next
        case Odd_digits
        with run False Inr b show ?thesis by auto
      next
        case (Digits n)
        show ?thesis
        proof (cases "1 \<le> n \<and> n \<le> length (UNIT_CATALOG rnd)")
          case False
          with run \<open>\<not> MAX_UNITS \<le> length (units team)\<close> Inr b Digits
          have "run_prematch_shop rnd gold team (print Invalid_choice w1) = Inr (g, team', w')"
            by auto
          from "1.IH"(1) [OF \<open>\<not> MAX_UNITS \<le> length (units team)\<close> Inr b Digits False this]
          show ?thesis
            by (rule via_print)
        next
          case True
          define pick where "pick = UNIT_CATALOG rnd ! (n - 1)"
          have pick: "pick \<in> set (UNIT_CATALOG rnd)"
            unfolding pick_def using True by (rule menu_pick)
          have nn: "\<not> \<not> (1 \<le> n \<and> n \<le> length (UNIT_CATALOG rnd))"
            using True by simp
          show ?thesis
          proof (cases "gold < t_cost pick")
            case poor: True
            with run False Inr b Digits True
            have "run_prematch_shop rnd gold team (print Not_enough_gold w1)
                  = Inr (g, team', w')"
              by (auto simp: pick_def)
            from "1.IH"(2) [OF False Inr b Digits nn pick_def poor this]
            show ?thesis
              by (rule via_print)
          next
            case rich: False
            obtain u w2 where cu: "(u, w2) = create_unit pick w1"
              by (cases "create_unit pick w1") auto
            with run False Inr b Digits True rich
            have rec: "run_prematch_shop rnd (gold - t_cost pick)
                    (team\<lparr>units := units team @ [u]\<rparr>) w2 = Inr (g, team', w')"
              by (auto simp: pick_def Let_def split: prod.splits)
            have k2: "kept rnd w1 w2"
              using cu [symmetric] pick by (rule kept_create_unit)
            have r2: "roster_in w1 team \<Longrightarrow> roster_in w2 (team\<lparr>units := units team @ [u]\<rparr>)"
              using cu [symmetric] pick by (rule roster_create_unit)
            from "1.IH"(3) [OF False Inr b Digits nn pick_def rich refl cu rec]
            have ih: "kept rnd w2 w'"
              "roster_in w2 (team\<lparr>units := units team @ [u]\<rparr>) \<longrightarrow> roster_in w' team'"
              "0 \<le> gold - t_cost pick \<longrightarrow> 0 \<le> g \<and> g \<le> gold - t_cost pick"
              by simp_all
            have "kept rnd w w'"
              using k1 k2 ih(1) by (blast intro: kept_trans)
            moreover have "roster_in w' team'" if "roster_in w team"
              using that kept_roster [OF k1] r2 ih(2) by blast
            moreover have "0 \<le> g \<and> g \<le> gold"
              using rich ih(3) catalog_cost [OF pick] by simp
            ultimately show ?thesis by simp
          qed
        qed
      qed
    qed
  qed
qed

lemma apply_upgrade_crit_bonus:
  assumes "crit_bonus wpn \<le> 0.75"
  shows "crit_bonus (apply_upgrade rnd up wpn) \<le> 0.75"
proof (cases "effect up")
  case (Damage v)
  with assms show ?thesis by (simp add: apply_upgrade_def)
next
  case (Crit v)
  have "min 0.75 (fadd rnd (crit_bonus wpn) v) \<le> (0.75 :: real)"
    by (rule min.cobounded1)
  with Crit show ?thesis by (simp add: apply_upgrade_def)
next
  case (Speed v)
  with assms show ?thesis by (simp add: apply_upgrade_def)
qed

lemma sound_upgrade_weapon:
  assumes "sound rnd w"
  shows "sound rnd (upgrade_weapon rnd' up wpn w)"
proof -
  have "crit_bonus (weapon_at (upgrade_weapon rnd' up wpn w) r) \<le> 0.75" for r
    using assms apply_upgrade_crit_bonus [of "weapon_at w wpn" rnd' up]
    by (simp add: upgrade_weapon_def sound_def)
  moreover have "unit_at (upgrade_weapon rnd' up wpn w) = unit_at w"
    and "unit_count (upgrade_weapon rnd' up wpn w) = unit_count w"
    by (simp_all add: upgrade_weapon_def)
  ultimately show ?thesis
    using assms unfolding sound_def by simp
qed

lemma kept_upgrade_weapon: "kept rnd w (upgrade_weapon rnd' up wpn w)"
  by (simp add: kept_def sound_upgrade_weapon) (simp add: advances_def upgrade_weapon_def)

lemma kept_buy_upgrade:
  assumes "up \<in> set (UPGRADES rnd)"
  shows "kept rnd w (snd (buy_upgrade rnd up gold wpn w))
     \<and> (0 \<le> gold \<longrightarrow> 0 \<le> fst (buy_upgrade rnd up gold wpn w)
          \<and> fst (buy_upgrade rnd up gold wpn w) \<le> gold)"
  using upgrades_cost [OF assms]
  by (simp add: buy_upgrade_def kept_print kept_upgrade_weapon)

lemma run_upgrade_shop_keeps:
  "run_upgrade_shop rnd gold wpn w = Inr (g, w') \<Longrightarrow>
     kept rnd w w' \<and> (0 \<le> gold \<longrightarrow> 0 \<le> g \<and> g \<le> gold)"
proof (induction rnd gold wpn w rule: run_upgrade_shop.induct)
  case (1 rnd gold wpn w)
  note run = "1.prems" [unfolded run_upgrade_shop.simps [of rnd gold wpn w]]
  show ?case
  proof (cases "read_line w")
    case (Inl e)
    with run show ?thesis by simp
  next
    case (Inr b)
    obtain l w1 where b: "(l, w1) = b" by (cases b) auto
    have k1: "kept rnd w w1"
      using Inr b by (auto intro: kept_read_line)
    have via_print: "kept rnd w w' \<and> (0 \<le> gold \<longrightarrow> 0 \<le> g \<and> g \<le> gold)"
      if ih: "kept rnd (print e w1) w' \<and> (0 \<le> gold \<longrightarrow> 0 \<le> g \<and> g \<le> gold)" for e
    proof -
      have "kept rnd w (print e w1)"
        using k1 kept_print by (rule kept_trans)
      then have "kept rnd w w'"
        using ih by (blast intro: kept_trans)
      then show ?thesis using ih by simp
    qed
    show ?thesis
    proof (cases l)
      case Done
      with run Inr b k1 show ?thesis by auto
    next
      case Other
      with run Inr b
      have "run_upgrade_shop rnd gold wpn (print Invalid_choice w1) = Inr (g, w')"
        by auto
      from "1.IH"(3) [OF Inr b Other this] show ?thesis
        by (rule via_print)
    next
      case Odd_digits
      with run Inr b show ?thesis by auto
    next
      case (Digits n)
      show ?thesis
      proof (cases "1 \<le> n \<and> n \<le> length (UPGRADES rnd)")
        case False
        with run Inr b Digits
        have "run_upgrade_shop rnd gold wpn (print Invalid_choice w1) = Inr (g, w')"
          by auto
        from "1.IH"(1) [OF Inr b Digits False this] show ?thesis
          by (rule via_print)
      next
        case True
        define up where "up = UPGRADES rnd ! (n - 1)"
        have up: "up \<in> set (UPGRADES rnd)"
          unfolding up_def using True by (rule menu_pick)
        have nn: "\<not> \<not> (1 \<le> n \<and> n \<le> length (UPGRADES rnd))"
          using True by simp
        obtain g2 w2 where bu: "(g2, w2) = buy_upgrade rnd up gold wpn w1"
          by (cases "buy_upgrade rnd up gold wpn w1") auto
        with run Inr b Digits True
        have rec: "run_upgrade_shop rnd g2 wpn w2 = Inr (g, w')"
          by (auto simp: up_def Let_def split: prod.splits)
        from "1.IH"(2) [OF Inr b Digits nn refl bu [unfolded up_def] rec]
        have ih: "kept rnd w2 w'" "0 \<le> g2 \<longrightarrow> 0 \<le> g \<and> g \<le> g2"
          by simp_all
        have "kept rnd w1 w2 \<and> (0 \<le> gold \<longrightarrow> 0 \<le> g2 \<and> g2 \<le> gold)"
          using kept_buy_upgrade [OF up, where gold = gold and wpn = wpn and w = w1] bu [symmetric]
          by simp
        then show ?thesis
          using k1 ih by (auto intro: kept_trans)
      qed
    qed
  qed
qed

lemma ai_buy_units_keeps:
  "ai_buy_units rnd gold team w = Some y \<Longrightarrow>
     kept rnd w (snd (snd y)) \<and> (roster_in w team \<longrightarrow> roster_in (snd (snd y)) (fst (snd y)))
     \<and> (0 \<le> gold \<longrightarrow> 0 \<le> fst y \<and> fst y \<le> gold)"
proof (induction rnd gold team w y
    rule: ai_buy_units.raw_induct [rotated 1, consumes 1, case_names body])
  case (body buy rnd gold team w y)
  note body = body.hyps [unfolded Let_def]
  show ?case
  proof (cases "min_list (map t_cost (UNIT_CATALOG rnd)) \<le> gold \<and> length (units team) < MAX_UNITS")
    case False
    with body have "y = (gold, team, w)" by auto
    then show ?thesis by (simp add: kept_refl)
  next
    case True
    obtain pick w1 where rc: "random_choice w (UNIT_CATALOG rnd) = (pick, w1)"
      by (cases "random_choice w (UNIT_CATALOG rnd)") auto
    have k1: "kept rnd w w1"
      using rc by (rule kept_random_choice)
    have pick: "pick \<in> set (UNIT_CATALOG rnd)"
      using random_choice_keeps(4) [OF rc] by (simp add: UNIT_CATALOG_def)
    show ?thesis
    proof (cases "gold < t_cost pick")
      case poor: True
      with body True rc have "buy rnd gold team w1 = Some y" by simp
      from body.IH [OF this] k1 kept_roster [OF k1] show ?thesis
        by (blast intro: kept_trans)
    next
      case rich: False
      obtain u w2 where cu: "create_unit pick w1 = (u, w2)"
        by (cases "create_unit pick w1") auto
      with body True rc rich
      have "buy rnd (gold - t_cost pick) (team\<lparr>units := units team @ [u]\<rparr>) w2 = Some y"
        by simp
      from body.IH [OF this]
      have ih: "kept rnd w2 (snd (snd y))"
        "roster_in w2 (team\<lparr>units := units team @ [u]\<rparr>)
           \<longrightarrow> roster_in (snd (snd y)) (fst (snd y))"
        "0 \<le> gold - t_cost pick \<longrightarrow> 0 \<le> fst y \<and> fst y \<le> gold - t_cost pick"
        by simp_all
      have k2: "kept rnd w1 w2"
        using cu pick by (rule kept_create_unit)
      have "kept rnd w (snd (snd y))"
        using k1 k2 ih(1) by (blast intro: kept_trans)
      moreover have "roster_in (snd (snd y)) (fst (snd y))" if "roster_in w team"
        using that kept_roster [OF k1] roster_create_unit [OF cu pick] ih(2) by blast
      moreover have "0 \<le> fst y \<and> fst y \<le> gold"
        using rich ih(3) catalog_cost [OF pick] by simp
      ultimately show ?thesis by simp
    qed
  qed
qed

lemma ai_upgrade_weapon_keeps:
  "kept rnd w (snd (ai_upgrade_weapon rnd gold wpn w))
   \<and> (0 \<le> gold \<longrightarrow> 0 \<le> fst (ai_upgrade_weapon rnd gold wpn w)
        \<and> fst (ai_upgrade_weapon rnd gold wpn w) \<le> gold)"
proof (cases "filter (\<lambda>u. cost u \<le> gold) (UPGRADES rnd) = []")
  case True
  then show ?thesis
    by (simp add: ai_upgrade_weapon_def kept_refl)
next
  case False
  obtain up w1 where rc: "random_choice w (filter (\<lambda>u. cost u \<le> gold) (UPGRADES rnd)) = (up, w1)"
    by (cases "random_choice w (filter (\<lambda>u. cost u \<le> gold) (UPGRADES rnd))") auto
  have up: "up \<in> set (UPGRADES rnd) \<and> cost up \<le> gold"
    using random_choice_keeps(4) [OF rc False] by simp
  have res: "ai_upgrade_weapon rnd gold wpn w = (gold - cost up, upgrade_weapon rnd up wpn w1)"
    using False rc by (simp add: ai_upgrade_weapon_def)
  have "kept rnd w (upgrade_weapon rnd up wpn w1)"
    using kept_random_choice [OF rc] kept_upgrade_weapon by (rule kept_trans)
  then show ?thesis
    using up upgrades_cost [of up rnd] by (simp add: res)
qed

lemma take_hit_alive:
  assumes "0 < hp u"
  shows "fst (take_hit u d) = u\<lparr>hp := hp (fst (take_hit u d))\<rparr>"
    and "0 \<le> hp (fst (take_hit u d))" and "hp (fst (take_hit u d)) \<le> hp u"
  using assms by (simp_all add: take_hit_def Let_def)

lemma attack_turn_frame:
  "unit_count (attack_turn rnd a targets w) = unit_count w"
  "weapon_at (attack_turn rnd a targets w) = weapon_at w"
  by (simp_all add: attack_turn_def random_choice_def random_random_def Let_def split_def)

lemma kept_attack_turn:
  assumes ne: "targets \<noteq> []" and alive: "\<forall>t \<in> set targets. is_alive (unit_at w t)"
  shows "kept rnd w (attack_turn rnd' a targets w)"
proof -
  define t where "t = targets ! (picks w (drawn w) mod length targets)"
  define hit where
    "hit = fst (take_hit (unit_at w t) (fst (attack_damage rnd' w a (rolls w (drawn w + 1)))))"
  have "t \<in> set targets"
    using ne by (simp add: t_def)
  then have pos: "0 < hp (unit_at w t)"
    using alive by (simp add: is_alive_def)
  have units: "unit_at (attack_turn rnd' a targets w) = (unit_at w)(t := hit)"
    by (simp add: attack_turn_units t_def hit_def)
  have h1: "hit = (unit_at w t)\<lparr>hp := hp hit\<rparr>"
    and h2: "0 \<le> hp hit" and h3: "hp hit \<le> hp (unit_at w t)"
    unfolding hit_def using take_hit_alive [OF pos] by simp_all
  have same: "max_hp hit = max_hp (unit_at w t)" "is_hero hit = is_hero (unit_at w t)"
    "weapon hit = weapon (unit_at w t)" "crit hit = crit (unit_at w t)"
    by (subst h1, simp)+
  have adv: "advances w (attack_turn rnd' a targets w)"
    using h1 h3 by (simp add: advances_def units attack_turn_frame)
  have "sound rnd (attack_turn rnd' a targets w)" if s: "sound rnd w"
    unfolding sound_def
  proof (intro conjI allI impI)
    fix r assume "r < unit_count (attack_turn rnd' a targets w)"
    then have r: "r < unit_count w"
      by (simp add: attack_turn_frame)
    show "0 \<le> hp (unit_at (attack_turn rnd' a targets w) r)"
      using s r h2 by (simp add: units sound_def)
    show "hp (unit_at (attack_turn rnd' a targets w) r)
          \<le> max_hp (unit_at (attack_turn rnd' a targets w) r)"
    proof (cases "r = t")
      case True
      have "hp (unit_at w t) \<le> max_hp (unit_at w t)"
        using s r True by (simp add: sound_def)
      with h3 True same(1) show ?thesis by (simp add: units)
    next
      case False
      with s r show ?thesis by (simp add: units sound_def)
    qed
    show "is_hero (unit_at (attack_turn rnd' a targets w) r)
           \<and> weapon (unit_at (attack_turn rnd' a targets w) r) \<noteq> None
          \<or> crit (unit_at (attack_turn rnd' a targets w) r) \<in> t_crit ` set (UNIT_CATALOG rnd)"
    proof (cases "r = t")
      case True
      have "is_hero (unit_at w t) \<and> weapon (unit_at w t) \<noteq> None
            \<or> crit (unit_at w t) \<in> t_crit ` set (UNIT_CATALOG rnd)"
        using s r True by (simp add: sound_def)
      with True same show ?thesis by (simp add: units)
    next
      case False
      with s r show ?thesis by (simp add: units sound_def)
    qed
  next
    fix r show "crit_bonus (weapon_at (attack_turn rnd' a targets w) r) \<le> 0.75"
      using s by (simp add: attack_turn_frame sound_def)
  qed
  with adv show ?thesis by (simp add: kept_def)
qed

lemma kept_fight_loop: "kept rnd w (fight_loop rnd' player enemy fighters w)"
proof (induction fighters arbitrary: w)
  case Nil
  show ?case by (simp add: kept_refl)
next
  case (Cons a rest)
  show ?case
  proof (cases "is_alive (unit_at w a)")
    case False
    with Cons show ?thesis by simp
  next
    case True
    define targets where
      "targets = (if contains w a (units player) then alive_units w enemy
                  else alive_units w player)"
    show ?thesis
    proof (cases "targets = []")
      case True
      with \<open>is_alive (unit_at w a)\<close> show ?thesis
        by (simp add: targets_def kept_refl)
    next
      case False
      have "\<forall>t \<in> set targets. is_alive (unit_at w t)"
        by (simp add: targets_def alive_units_def)
      with False have "kept rnd w (attack_turn rnd' a targets w)"
        by (rule kept_attack_turn)
      moreover have "kept rnd (attack_turn rnd' a targets w)
          (fight_loop rnd' player enemy rest (attack_turn rnd' a targets w))"
        by (rule Cons.IH)
      ultimately have "kept rnd w (fight_loop rnd' player enemy rest (attack_turn rnd' a targets w))"
        by (rule kept_trans)
      with False \<open>is_alive (unit_at w a)\<close> show ?thesis
        by (simp add: targets_def)
    qed
  qed
qed

lemma kept_fight_round: "kept rnd w (snd (fight_round rnd' player enemy w))"
  by (simp add: fight_round_def Let_def kept_fight_loop)

lemma main_init_ok: "match_ok rnd (main_init rnd (boot ps rs inp))"
  by (simp add: match_ok_def main_init_def boot_def new_weapon_def create_hero_def
      new_unit_def post_init_def sound_def roster_in_def START_GOLD_def Weapon_default_def
      less_Suc_eq)

lemma main_step_ok:
  assumes ok: "match_ok rnd m" and step: "main_step rnd m = Some m'"
  shows "match_ok rnd m' \<and> advances (env m) (env m')"
proof (cases "stage m")
  case At_prematch_shop
  show ?thesis
  proof (cases "run_prematch_shop rnd (player_gold m) (player_team m) (env m)")
    case (Inl e)
    with step At_prematch_shop ok show ?thesis
      by (auto simp: main_step_def match_ok_def advances_refl)
  next
    case (Inr res)
    obtain g t w where res: "res = (g, t, w)" by (cases res) auto
    from run_prematch_shop_keeps [OF Inr [unfolded res]] ok
    have "kept rnd (env m) w" "roster_in w t" "0 \<le> g"
      by (simp_all add: match_ok_def)
    moreover from step At_prematch_shop Inr res
    have "m' = m\<lparr>env := w, player_team := t, player_gold := g, stage := At_ai_buy\<rparr>"
      by (simp add: main_step_def)
    ultimately show ?thesis
      using ok kept_roster [of rnd "env m" w] by (simp add: match_ok_def kept_def)
  qed
next
  case At_ai_buy
  show ?thesis
  proof (cases "ai_buy_units rnd (enemy_gold m) (enemy_team m) (env m)")
    case None
    with step At_ai_buy show ?thesis by (simp add: main_step_def)
  next
    case (Some res)
    obtain g t w where res: "res = (g, t, w)" by (cases res) auto
    from ai_buy_units_keeps [OF Some] ok res
    have "kept rnd (env m) w" "roster_in w t" "0 \<le> g"
      by (simp_all add: match_ok_def)
    moreover from step At_ai_buy Some res
    have "m' = m\<lparr>env := w, enemy_team := t, enemy_gold := g, stage := At_fight\<rparr>"
      by (simp add: main_step_def)
    ultimately show ?thesis
      using ok kept_roster [of rnd "env m" w] by (simp add: match_ok_def kept_def)
  qed
next
  case At_fight
  obtain res w where fr: "fight_round rnd (player_team m) (enemy_team m) (env m) = (res, w)"
    by (cases "fight_round rnd (player_team m) (enemy_team m) (env m)") auto
  have "kept rnd (env m) w"
    using kept_fight_round [of rnd "env m" rnd "player_team m" "enemy_team m"] fr by simp
  moreover from step At_fight fr
  have "env m' = w" "player_team m' = player_team m" "enemy_team m' = enemy_team m"
    "player_gold m' = player_gold m" "enemy_gold m' = enemy_gold m"
    by (auto simp: main_step_def)
  ultimately show ?thesis
    using ok kept_roster [of rnd "env m" w] by (simp add: match_ok_def kept_def)
next
  case At_income
  with step ok show ?thesis
    by (auto simp: main_step_def match_ok_def advances_refl ROUND_INCOME_def)
next
  case At_upgrade_shop
  show ?thesis
  proof (cases "run_upgrade_shop rnd (player_gold m) (player_weapon m) (env m)")
    case (Inl e)
    with step At_upgrade_shop ok show ?thesis
      by (auto simp: main_step_def match_ok_def advances_refl)
  next
    case (Inr res)
    obtain g w where res: "res = (g, w)" by (cases res) auto
    from run_upgrade_shop_keeps [OF Inr [unfolded res]] ok
    have "kept rnd (env m) w" "0 \<le> g"
      by (simp_all add: match_ok_def)
    moreover from step At_upgrade_shop Inr res
    have "m' = m\<lparr>env := w, player_gold := g, stage := At_ai_upgrade\<rparr>"
      by (simp add: main_step_def)
    ultimately show ?thesis
      using ok kept_roster [of rnd "env m" w] by (simp add: match_ok_def kept_def)
  qed
next
  case At_ai_upgrade
  obtain g w where au: "ai_upgrade_weapon rnd (enemy_gold m) (enemy_weapon m) (env m) = (g, w)"
    by (cases "ai_upgrade_weapon rnd (enemy_gold m) (enemy_weapon m) (env m)") auto
  from ai_upgrade_weapon_keeps [of rnd "env m" "enemy_gold m" "enemy_weapon m"] ok au
  have "kept rnd (env m) w" "0 \<le> g"
    by (simp_all add: match_ok_def)
  moreover from step At_ai_upgrade au
  have "m' = m\<lparr>env := w, enemy_gold := g, round_num := round_num m + 1, stage := At_fight\<rparr>"
    by (simp add: main_step_def)
  ultimately show ?thesis
    using ok kept_roster [of rnd "env m" w] by (simp add: match_ok_def kept_def)
next
  case (Game_over res)
  with step show ?thesis by (simp add: main_step_def)
next
  case (Raised e)
  with step show ?thesis by (simp add: main_step_def)
qed

lemma reachable_ok: "reachable rnd (boot ps rs inp) m \<Longrightarrow> match_ok rnd m"
proof (induction rule: reachable.induct)
  case start
  show ?case by (rule main_init_ok)
next
  case (step m m')
  then show ?case using main_step_ok by blast
qed



section \<open>A run of the match\<close>

lemma reachable_steps: "reachable rnd w0 (steps rnd n (main_init rnd w0))"
proof (induction n)
  case 0
  show ?case by (simp add: reachable.start)
next
  case (Suc n)
  then show ?case
    by (auto split: option.splits intro: reachable.step)
qed

lemma reachable_demo: "reachable id demo_boot (demo n)"
  by (simp add: demo_def reachable_steps)

lemma demo_next: "main_step id (demo n) = Some m' \<Longrightarrow> k = Suc n \<Longrightarrow> demo k = m'"
  by (simp add: demo_def)

lemmas fight_unfold = fight_round_def turn_order_def sort_reverse_def alive_units_def
  is_alive_def effective_speed_def contains_def unit_eq_def attack_turn_def random_choice_def
  random_random_def attack_damage_def effective_attack_def effective_crit_def fadd_def
  take_hit_def classify_def

lemma demo_0:
  "demo 0 = \<lparr>env = \<lparr>unit_at = (\<lambda>r. blank_unit)
       (0 := \<lparr>name = ''Hero'', max_hp = 30, attack = 8, defense = 2, crit = 0.1, speed = 6,
               is_hero = True, weapon = Some 0, hp = 30\<rparr>,
        Suc 0 := \<lparr>name = ''Warlord'', max_hp = 30, attack = 8, defense = 2, crit = 0.1,
               speed = 6, is_hero = True, weapon = Some (Suc 0), hp = 30\<rparr>),
      weapon_at = (\<lambda>r. \<lparr>damage_bonus = 0, crit_bonus = 0, speed_bonus = 0\<rparr>)
       (0 := \<lparr>damage_bonus = 0, crit_bonus = 0, speed_bonus = 0\<rparr>,
        Suc 0 := \<lparr>damage_bonus = 0, crit_bonus = 0, speed_bonus = 0\<rparr>),
      unit_count = 2, weapon_count = 2, picks = (\<lambda>k. 2), rolls = (\<lambda>k. 1), drawn = 0,
      stdin = [Done, Digits 1, Done], stdout = []\<rparr>,
     player_weapon = 0, enemy_weapon = Suc 0,
     player_team = \<lparr>team_name = ''Player'', units = [0]\<rparr>,
     enemy_team = \<lparr>team_name = ''Enemy'', units = [Suc 0]\<rparr>,
     player_gold = 20, enemy_gold = 20, round_num = 1, stage = At_prematch_shop\<rparr>"
  by (simp add: demo_def demo_boot_def main_init_def boot_def new_weapon_def create_hero_def
      new_unit_def post_init_def Weapon_default_def START_GOLD_def split_def Let_def)

lemma step_0:
  "main_step id (demo 0)
   = Some ((demo 0)\<lparr>env := (env (demo 0))\<lparr>stdin := [Digits 1, Done]\<rparr>, stage := At_ai_buy\<rparr>)"
  by (simp add: demo_0 main_step_def run_prematch_shop.simps MAX_UNITS_def read_line_def)

lemma demo_1:
  "demo (Suc 0)
   = (demo 0)\<lparr>env := (env (demo 0))\<lparr>stdin := [Digits 1, Done]\<rparr>, stage := At_ai_buy\<rparr>"
  by (rule demo_next [OF step_0]) simp

lemma step_1:
  "main_step id (demo (Suc 0)) = Some ((demo (Suc 0))\<lparr>env := (env (demo (Suc 0)))
       \<lparr>unit_at := (unit_at (env (demo (Suc 0))))
          (2 := \<lparr>name = ''Guardian'', max_hp = 32, attack = 6, defense = 4, crit = 0.03,
                  speed = 3, is_hero = False, weapon = None, hp = 32\<rparr>,
           3 := \<lparr>name = ''Guardian'', max_hp = 32, attack = 6, defense = 4, crit = 0.03,
                  speed = 3, is_hero = False, weapon = None, hp = 32\<rparr>,
           4 := \<lparr>name = ''Guardian'', max_hp = 32, attack = 6, defense = 4, crit = 0.03,
                  speed = 3, is_hero = False, weapon = None, hp = 32\<rparr>),
        unit_count := 5, drawn := 3\<rparr>,
     enemy_team := \<lparr>team_name = ''Enemy'', units = [1, 2, 3, 4]\<rparr>,
     enemy_gold := 2, stage := At_fight\<rparr>)"
  by (simp add: demo_1 demo_0 main_step_def ai_buy_units.simps UNIT_CATALOG_def MAX_UNITS_def
      random_choice_def create_unit_def new_unit_def post_init_def)

lemma demo_2:
  "demo 2 = (demo (Suc 0))\<lparr>env := (env (demo (Suc 0)))
       \<lparr>unit_at := (unit_at (env (demo (Suc 0))))
          (2 := \<lparr>name = ''Guardian'', max_hp = 32, attack = 6, defense = 4, crit = 0.03,
                  speed = 3, is_hero = False, weapon = None, hp = 32\<rparr>,
           3 := \<lparr>name = ''Guardian'', max_hp = 32, attack = 6, defense = 4, crit = 0.03,
                  speed = 3, is_hero = False, weapon = None, hp = 32\<rparr>,
           4 := \<lparr>name = ''Guardian'', max_hp = 32, attack = 6, defense = 4, crit = 0.03,
                  speed = 3, is_hero = False, weapon = None, hp = 32\<rparr>),
        unit_count := 5, drawn := 3\<rparr>,
     enemy_team := \<lparr>team_name = ''Enemy'', units = [1, 2, 3, 4]\<rparr>,
     enemy_gold := 2, stage := At_fight\<rparr>"
  by (rule demo_next [OF step_1]) simp

lemma step_2:
  "main_step id (demo 2) = Some ((demo 2)\<lparr>env := (env (demo 2))
       \<lparr>unit_at := (unit_at (env (demo 2)))
          (3 := \<lparr>name = ''Guardian'', max_hp = 32, attack = 6, defense = 4, crit = 0.03,
                  speed = 3, is_hero = False, weapon = None, hp = 28\<rparr>,
           0 := \<lparr>name = ''Hero'', max_hp = 30, attack = 8, defense = 2, crit = 0.1, speed = 6,
               is_hero = True, weapon = Some 0, hp = 12\<rparr>),
        drawn := 13,
        stdout := [Hit ''Hero'' ''Guardian'' 4 [], Hit ''Warlord'' ''Hero'' 6 [],
                   Hit ''Guardian'' ''Hero'' 4 [], Hit ''Guardian'' ''Hero'' 4 [],
                   Hit ''Guardian'' ''Hero'' 4 []]\<rparr>,
     stage := At_income\<rparr>)"
  by (simp add: demo_2 demo_1 demo_0 main_step_def fight_unfold)

lemma demo_3:
  "demo 3 = (demo 2)\<lparr>env := (env (demo 2))
       \<lparr>unit_at := (unit_at (env (demo 2)))
          (3 := \<lparr>name = ''Guardian'', max_hp = 32, attack = 6, defense = 4, crit = 0.03,
                  speed = 3, is_hero = False, weapon = None, hp = 28\<rparr>,
           0 := \<lparr>name = ''Hero'', max_hp = 30, attack = 8, defense = 2, crit = 0.1, speed = 6,
               is_hero = True, weapon = Some 0, hp = 12\<rparr>),
        drawn := 13,
        stdout := [Hit ''Hero'' ''Guardian'' 4 [], Hit ''Warlord'' ''Hero'' 6 [],
                   Hit ''Guardian'' ''Hero'' 4 [], Hit ''Guardian'' ''Hero'' 4 [],
                   Hit ''Guardian'' ''Hero'' 4 []]\<rparr>,
     stage := At_income\<rparr>"
  by (rule demo_next [OF step_2]) simp

lemma step_3:
  "main_step id (demo 3)
   = Some ((demo 3)\<lparr>player_gold := 27, enemy_gold := 9, stage := At_upgrade_shop\<rparr>)"
  by (simp add: demo_3 demo_2 demo_1 demo_0 main_step_def ROUND_INCOME_def)

lemma demo_4:
  "demo 4 = (demo 3)\<lparr>player_gold := 27, enemy_gold := 9, stage := At_upgrade_shop\<rparr>"
  by (rule demo_next [OF step_3]) simp

lemma step_4:
  "main_step id (demo 4) = Some ((demo 4)\<lparr>env := (env (demo 4))
       \<lparr>weapon_at := (weapon_at (env (demo 4)))
          (0 := \<lparr>damage_bonus = 2, crit_bonus = 0, speed_bonus = 0\<rparr>),
        stdin := []\<rparr>,
     player_gold := 21, stage := At_ai_upgrade\<rparr>)"
  by (simp add: demo_4 demo_3 demo_2 demo_1 demo_0 main_step_def run_upgrade_shop.simps
      read_line_def UPGRADES_def buy_upgrade_def upgrade_weapon_def apply_upgrade_def)

lemma demo_5:
  "demo 5 = (demo 4)\<lparr>env := (env (demo 4))
       \<lparr>weapon_at := (weapon_at (env (demo 4)))
          (0 := \<lparr>damage_bonus = 2, crit_bonus = 0, speed_bonus = 0\<rparr>),
        stdin := []\<rparr>,
     player_gold := 21, stage := At_ai_upgrade\<rparr>"
  by (rule demo_next [OF step_4]) simp

lemma step_5:
  "main_step id (demo 5) = Some ((demo 5)\<lparr>env := (env (demo 5))
       \<lparr>weapon_at := (weapon_at (env (demo 5)))
          (Suc 0 := \<lparr>damage_bonus = 0, crit_bonus = 0, speed_bonus = 1\<rparr>),
        drawn := 14\<rparr>,
     enemy_gold := 5, round_num := 2, stage := At_fight\<rparr>)"
  by (simp add: demo_5 demo_4 demo_3 demo_2 demo_1 demo_0 main_step_def ai_upgrade_weapon_def
      random_choice_def UPGRADES_def upgrade_weapon_def apply_upgrade_def)

lemma demo_6:
  "demo 6 = (demo 5)\<lparr>env := (env (demo 5))
       \<lparr>weapon_at := (weapon_at (env (demo 5)))
          (Suc 0 := \<lparr>damage_bonus = 0, crit_bonus = 0, speed_bonus = 1\<rparr>),
        drawn := 14\<rparr>,
     enemy_gold := 5, round_num := 2, stage := At_fight\<rparr>"
  by (rule demo_next [OF step_5]) simp



section \<open>Gold\<close>

text \<open>
  C10. Started with a balance that is not negative, each of \<open>run_prematch_shop\<close>,
  \<open>run_upgrade_shop\<close>, \<open>ai_buy_units\<close> and \<open>ai_upgrade_weapon\<close> returns a balance that is
  not negative either (and not above the one it was given): a cost is subtracted only
  after the balance was found to cover it. In every state of a match both balances are
  at least 0.
\<close>

theorem gold_never_negative:
  "(0 \<le> gold \<and> run_prematch_shop rnd gold team w = Inr (g, team', w') \<longrightarrow> 0 \<le> g \<and> g \<le> gold)
   \<and> (0 \<le> gold \<and> run_upgrade_shop rnd gold wpn w = Inr (g, w') \<longrightarrow> 0 \<le> g \<and> g \<le> gold)
   \<and> (0 \<le> gold \<and> ai_buy_units rnd gold team w = Some (g, team', w') \<longrightarrow> 0 \<le> g \<and> g \<le> gold)
   \<and> (0 \<le> gold \<longrightarrow> 0 \<le> fst (ai_upgrade_weapon rnd gold wpn w)
                    \<and> fst (ai_upgrade_weapon rnd gold wpn w) \<le> gold)
   \<and> (reachable rnd (boot ps rs inp) m \<longrightarrow> 0 \<le> player_gold m \<and> 0 \<le> enemy_gold m)"
proof (intro conjI impI)
  assume "0 \<le> gold \<and> run_prematch_shop rnd gold team w = Inr (g, team', w')"
  then show "0 \<le> g" and "g \<le> gold"
    using run_prematch_shop_keeps [of rnd gold team w g team' w'] by simp_all
next
  assume "0 \<le> gold \<and> run_upgrade_shop rnd gold wpn w = Inr (g, w')"
  then show "0 \<le> g" and "g \<le> gold"
    using run_upgrade_shop_keeps [of rnd gold wpn w g w'] by simp_all
next
  assume "0 \<le> gold \<and> ai_buy_units rnd gold team w = Some (g, team', w')"
  then show "0 \<le> g" and "g \<le> gold"
    using ai_buy_units_keeps [of rnd gold team w "(g, team', w')"] by simp_all
next
  assume "0 \<le> gold"
  then show "0 \<le> fst (ai_upgrade_weapon rnd gold wpn w)"
    and "fst (ai_upgrade_weapon rnd gold wpn w) \<le> gold"
    using ai_upgrade_weapon_keeps [of rnd w gold wpn] by simp_all
next
  assume "reachable rnd (boot ps rs inp) m"
  then have "match_ok rnd m" by (rule reachable_ok)
  then show "0 \<le> player_gold m" and "0 \<le> enemy_gold m"
    by (simp_all add: match_ok_def)
qed

theorem gold_never_negative_witness:
  "(0 :: int) \<le> 20
   \<and> run_prematch_shop id 20 (player_team (demo 0)) ((env (demo 0))\<lparr>stdin := [Digits 2, Done]\<rparr>)
       = Inr (15, \<lparr>team_name = ''Player'', units = [0, 2]\<rparr>,
              (env (demo 0))\<lparr>unit_at := (unit_at (env (demo 0)))
                  (2 := \<lparr>name = ''Archer'', max_hp = 18, attack = 9, defense = 1, crit = 0.1,
                          speed = 7, is_hero = False, weapon = None, hp = 18\<rparr>),
                unit_count := 3, stdin := []\<rparr>)
   \<and> (0 :: int) \<le> 15 \<and> (15 :: int) \<le> 20
   \<and> (0 :: int) \<le> 27
   \<and> run_upgrade_shop id 27 0 (env (demo 4)) = Inr (21, env (demo 5))
   \<and> (0 :: int) \<le> 21 \<and> (21 :: int) \<le> 27
   \<and> ai_buy_units id 20 (enemy_team (demo (Suc 0))) (env (demo (Suc 0)))
       = Some (2, enemy_team (demo 2), env (demo 2))
   \<and> (0 :: int) \<le> 2 \<and> (2 :: int) \<le> 20
   \<and> (0 :: int) \<le> 9
   \<and> fst (ai_upgrade_weapon id 9 (Suc 0) (env (demo 5))) = 5
   \<and> 0 \<le> fst (ai_upgrade_weapon id 9 (Suc 0) (env (demo 5)))
   \<and> fst (ai_upgrade_weapon id 9 (Suc 0) (env (demo 5))) \<le> 9
   \<and> reachable id (boot (\<lambda>k. 2) (\<lambda>k. 1) [Done, Digits 1, Done]) (demo 6)
   \<and> player_gold (demo 6) = 21 \<and> enemy_gold (demo 6) = 5
   \<and> 0 \<le> player_gold (demo 6) \<and> 0 \<le> enemy_gold (demo 6)"
proof -
  have shop: "run_prematch_shop id 20 (player_team (demo 0))
        ((env (demo 0))\<lparr>stdin := [Digits 2, Done]\<rparr>)
       = Inr (15, \<lparr>team_name = ''Player'', units = [0, 2]\<rparr>,
              (env (demo 0))\<lparr>unit_at := (unit_at (env (demo 0)))
                  (2 := \<lparr>name = ''Archer'', max_hp = 18, attack = 9, defense = 1, crit = 0.1,
                          speed = 7, is_hero = False, weapon = None, hp = 18\<rparr>),
                unit_count := 3, stdin := []\<rparr>)"
    by (simp add: demo_0 run_prematch_shop.simps MAX_UNITS_def read_line_def UNIT_CATALOG_def
        create_unit_def new_unit_def post_init_def)
  have upgrade: "run_upgrade_shop id 27 0 (env (demo 4)) = Inr (21, env (demo 5))"
    by (simp add: demo_5 demo_4 demo_3 demo_2 demo_1 demo_0 run_upgrade_shop.simps
        read_line_def UPGRADES_def buy_upgrade_def upgrade_weapon_def apply_upgrade_def)
  have buy: "ai_buy_units id 20 (enemy_team (demo (Suc 0))) (env (demo (Suc 0)))
       = Some (2, enemy_team (demo 2), env (demo 2))"
    by (simp add: demo_2 demo_1 demo_0 ai_buy_units.simps UNIT_CATALOG_def MAX_UNITS_def
        random_choice_def create_unit_def new_unit_def post_init_def)
  have ai: "fst (ai_upgrade_weapon id 9 (Suc 0) (env (demo 5))) = 5"
    by (simp add: demo_5 demo_4 demo_3 demo_2 demo_1 demo_0 ai_upgrade_weapon_def
        random_choice_def UPGRADES_def)
  have reach: "reachable id (boot (\<lambda>k. 2) (\<lambda>k. 1) [Done, Digits 1, Done]) (demo 6)"
    using reachable_demo [of 6] by (simp add: demo_boot_def)
  have golds: "player_gold (demo 6) = 21 \<and> enemy_gold (demo 6) = 5"
    by (simp add: demo_6 demo_5 demo_4 demo_3 demo_2 demo_1 demo_0)
  have a: "(0 :: int) \<le> 15 \<and> (15 :: int) \<le> 20"
    using gold_never_negative [where gold = 20 and rnd = id and g = 15
        and team = "player_team (demo 0)" and w = "(env (demo 0))\<lparr>stdin := [Digits 2, Done]\<rparr>"
        and team' = "\<lparr>team_name = ''Player'', units = [0, 2]\<rparr>"
        and w' = "(env (demo 0))\<lparr>unit_at := (unit_at (env (demo 0)))
                  (2 := \<lparr>name = ''Archer'', max_hp = 18, attack = 9, defense = 1, crit = 0.1,
                          speed = 7, is_hero = False, weapon = None, hp = 18\<rparr>),
                unit_count := 3, stdin := []\<rparr>",
        THEN conjunct1] shop
    by simp
  have b: "(0 :: int) \<le> 21 \<and> (21 :: int) \<le> 27"
    using gold_never_negative [where gold = 27 and rnd = id
        and wpn = 0 and w = "env (demo 4)" and g = 21 and w' = "env (demo 5)",
        THEN conjunct2, THEN conjunct1] upgrade
    by simp
  have c: "(0 :: int) \<le> 2 \<and> (2 :: int) \<le> 20"
    using gold_never_negative [where gold = 20 and rnd = id and team = "enemy_team (demo (Suc 0))"
        and w = "env (demo (Suc 0))" and g = 2 and team' = "enemy_team (demo 2)"
        and w' = "env (demo 2)",
        THEN conjunct2, THEN conjunct2, THEN conjunct1] buy
    by simp
  have d: "0 \<le> fst (ai_upgrade_weapon id 9 (Suc 0) (env (demo 5)))
           \<and> fst (ai_upgrade_weapon id 9 (Suc 0) (env (demo 5))) \<le> 9"
    using gold_never_negative [where gold = 9 and rnd = id and wpn = "Suc 0" and w = "env (demo 5)",
        THEN conjunct2, THEN conjunct2, THEN conjunct2, THEN conjunct1]
    by simp
  have e: "0 \<le> player_gold (demo 6) \<and> 0 \<le> enemy_gold (demo 6)"
    using gold_never_negative [where rnd = id and ps = "\<lambda>k. 2" and rs = "\<lambda>k. 1" and inp = "[Done, Digits 1, Done]"
        and m = "demo 6",
        THEN conjunct2, THEN conjunct2, THEN conjunct2, THEN conjunct2] reach
    by simp
  from shop upgrade buy ai reach golds a b c d e show ?thesis
    by simp
qed



section \<open>Health\<close>

text \<open>
  C2. A unit is created with its health at its maximum: \<open>__post_init__\<close> sets it, and the
  constructor stores the unit so initialised. A hit on a unit whose health is between 0
  and its maximum leaves it there and does not raise it. In every state of a match
  every unit created so far has its health between 0 and its maximum, and the two teams
  hold created units only. No operation of \<open>main\<close> raises the health or changes the
  maximum health of a unit that exists; units are only added.
\<close>

theorem health_bounded_never_increases:
  "hp (post_init u) = max_hp u
   \<and> unit_at (snd (new_unit u w)) (fst (new_unit u w)) = post_init u
   \<and> (0 \<le> hp u \<and> hp u \<le> max_hp u \<longrightarrow>
        0 \<le> hp (fst (take_hit u raw_damage))
        \<and> hp (fst (take_hit u raw_damage)) \<le> hp u
        \<and> hp (fst (take_hit u raw_damage)) \<le> max_hp (fst (take_hit u raw_damage)))
   \<and> (reachable rnd (boot ps rs inp) m \<longrightarrow>
        (\<forall>r<unit_count (env m).
            0 \<le> hp (unit_at (env m) r) \<and> hp (unit_at (env m) r) \<le> max_hp (unit_at (env m) r))
        \<and> (\<forall>r \<in> set (units (player_team m)) \<union> set (units (enemy_team m)).
              r < unit_count (env m)))
   \<and> (reachable rnd (boot ps rs inp) m \<and> main_step rnd m = Some m' \<longrightarrow>
        unit_count (env m) \<le> unit_count (env m')
        \<and> (\<forall>r<unit_count (env m).
              hp (unit_at (env m') r) \<le> hp (unit_at (env m) r)
              \<and> max_hp (unit_at (env m') r) = max_hp (unit_at (env m) r)))"
proof (intro conjI impI)
  show "hp (post_init u) = max_hp u"
    by (simp add: post_init_def)
  show "unit_at (snd (new_unit u w)) (fst (new_unit u w)) = post_init u"
    by (simp add: new_unit_def)
next
  assume "0 \<le> hp u \<and> hp u \<le> max_hp u"
  then show "0 \<le> hp (fst (take_hit u raw_damage))"
    and "hp (fst (take_hit u raw_damage)) \<le> hp u"
    and "hp (fst (take_hit u raw_damage)) \<le> max_hp (fst (take_hit u raw_damage))"
    by (auto simp: take_hit_def Let_def max_def)
next
  assume "reachable rnd (boot ps rs inp) m"
  then have ok: "match_ok rnd m" by (rule reachable_ok)
  then show "\<forall>r<unit_count (env m).
      0 \<le> hp (unit_at (env m) r) \<and> hp (unit_at (env m) r) \<le> max_hp (unit_at (env m) r)"
    by (simp add: match_ok_def sound_def)
  from ok show "\<forall>r \<in> set (units (player_team m)) \<union> set (units (enemy_team m)).
      r < unit_count (env m)"
    by (auto simp: match_ok_def roster_in_def)
next
  assume h: "reachable rnd (boot ps rs inp) m \<and> main_step rnd m = Some m'"
  then have "match_ok rnd m" by (blast intro: reachable_ok)
  with h have adv: "advances (env m) (env m')"
    using main_step_ok by blast
  then show "unit_count (env m) \<le> unit_count (env m')"
    by (simp add: advances_def)
  show "\<forall>r<unit_count (env m).
      hp (unit_at (env m') r) \<le> hp (unit_at (env m) r)
      \<and> max_hp (unit_at (env m') r) = max_hp (unit_at (env m) r)"
  proof (intro allI impI)
    fix r assume "r < unit_count (env m)"
    with adv have a: "unit_at (env m') r = (unit_at (env m) r)\<lparr>hp := hp (unit_at (env m') r)\<rparr>"
      and b: "hp (unit_at (env m') r) \<le> hp (unit_at (env m) r)"
      by (simp_all add: advances_def)
    have "max_hp (unit_at (env m') r) = max_hp (unit_at (env m) r)"
      by (subst a) simp
    with b show "hp (unit_at (env m') r) \<le> hp (unit_at (env m) r)
      \<and> max_hp (unit_at (env m') r) = max_hp (unit_at (env m) r)"
      by simp
  qed
qed

theorem health_bounded_never_increases_witness:
  "hp (unit_at (env (demo 2)) 0) = 30 \<and> max_hp (unit_at (env (demo 2)) 0) = 30
   \<and> hp (fst (take_hit (unit_at (env (demo 2)) 0) 8)) = 24
   \<and> reachable id (boot (\<lambda>k. 2) (\<lambda>k. 1) [Done, Digits 1, Done]) (demo 2)
   \<and> main_step id (demo 2) = Some (demo 3)
   \<and> unit_count (env (demo 2)) = 5
   \<and> units (player_team (demo 2)) = [0] \<and> units (enemy_team (demo 2)) = [1, 2, 3, 4]
   \<and> hp (unit_at (env (demo 3)) 0) = 12
   \<and> hp (unit_at (env (demo 3)) 0) \<le> hp (unit_at (env (demo 2)) 0)
   \<and> max_hp (unit_at (env (demo 3)) 0) = max_hp (unit_at (env (demo 2)) 0)
   \<and> 0 \<le> hp (unit_at (env (demo 3)) 0)
   \<and> hp (unit_at (env (demo 3)) 0) \<le> max_hp (unit_at (env (demo 3)) 0)"
proof -
  have hero: "hp (unit_at (env (demo 2)) 0) = 30 \<and> max_hp (unit_at (env (demo 2)) 0) = 30"
    by (simp add: demo_2 demo_1 demo_0)
  have hit: "hp (fst (take_hit (unit_at (env (demo 2)) 0) 8)) = 24"
    by (simp add: demo_2 demo_1 demo_0 take_hit_def)
  have reach: "reachable id (boot (\<lambda>k. 2) (\<lambda>k. 1) [Done, Digits 1, Done]) (demo n)" for n
    using reachable_demo [of n] by (simp add: demo_boot_def)
  have step: "main_step id (demo 2) = Some (demo 3)"
    by (simp add: step_2 demo_3)
  have count: "unit_count (env (demo 2)) = 5"
    and teams: "units (player_team (demo 2)) = [0] \<and> units (enemy_team (demo 2)) = [1, 2, 3, 4]"
    by (simp_all add: demo_2 demo_1 demo_0)
  have after: "hp (unit_at (env (demo 3)) 0) = 12"
    by (simp add: demo_3 demo_2 demo_1 demo_0)
  note rule = health_bounded_never_increases [where rnd = id and ps = "\<lambda>k. 2" and rs = "\<lambda>k. 1"
      and inp = "[Done, Digits 1, Done]" and u = "unit_at (env (demo 2)) 0" and raw_damage = 8]
  have a: "0 \<le> hp (fst (take_hit (unit_at (env (demo 2)) 0) 8))
      \<and> hp (fst (take_hit (unit_at (env (demo 2)) 0) 8)) \<le> hp (unit_at (env (demo 2)) 0)"
    using rule [THEN conjunct2, THEN conjunct2, THEN conjunct1] hero by simp
  have b: "\<forall>r<unit_count (env (demo 3)).
      0 \<le> hp (unit_at (env (demo 3)) r)
      \<and> hp (unit_at (env (demo 3)) r) \<le> max_hp (unit_at (env (demo 3)) r)"
    using rule [where m = "demo 3", THEN conjunct2, THEN conjunct2, THEN conjunct2,
        THEN conjunct1] reach [of 3]
    by simp
  have c: "\<forall>r<unit_count (env (demo 2)).
      hp (unit_at (env (demo 3)) r) \<le> hp (unit_at (env (demo 2)) r)
      \<and> max_hp (unit_at (env (demo 3)) r) = max_hp (unit_at (env (demo 2)) r)"
    using rule [where m = "demo 2" and m' = "demo 3", THEN conjunct2, THEN conjunct2,
        THEN conjunct2, THEN conjunct2] reach [of 2] step
    by simp
  have "unit_count (env (demo 3)) = 5"
    by (simp add: demo_3 demo_2 demo_1 demo_0)
  with b c count have "0 \<le> hp (unit_at (env (demo 3)) 0)
      \<and> hp (unit_at (env (demo 3)) 0) \<le> max_hp (unit_at (env (demo 3)) 0)
      \<and> hp (unit_at (env (demo 3)) 0) \<le> hp (unit_at (env (demo 2)) 0)
      \<and> max_hp (unit_at (env (demo 3)) 0) = max_hp (unit_at (env (demo 2)) 0)"
    by simp
  with hero hit reach [of 2] step count teams after show ?thesis
    by simp
qed



section \<open>Critical chance\<close>

lemma catalog_crit_bound:
  assumes "mono rnd" and "rnd 0.75 = 0.75" and "c \<in> t_crit ` set (UNIT_CATALOG rnd)"
  shows "c \<le> 0.75"
proof -
  have "rnd x \<le> 0.75" if "x \<le> 0.75" for x
    using monoD [OF assms(1) that] assms(2) by simp
  then have "rnd 0.05 \<le> 0.75" "rnd 0.10 \<le> 0.75" "rnd 0.03 \<le> 0.75" "rnd 0.15 \<le> 0.75"
    by simp_all
  then show ?thesis
    using assms(3) by (auto simp: UNIT_CATALOG_def)
qed

lemma hero_crit_bound:
  assumes "is_hero u" and "weapon u = Some r"
  shows "effective_crit rnd wp u = min 0.75 (fadd rnd (crit u) (crit_bonus (wp r)))"
    and "effective_crit rnd wp u \<le> 0.75"
proof -
  show eq: "effective_crit rnd wp u = min 0.75 (fadd rnd (crit u) (crit_bonus (wp r)))"
    using assms by (simp add: effective_crit_def)
  have "min 0.75 (fadd rnd (crit u) (crit_bonus (wp r))) \<le> (0.75 :: real)"
    by (rule min.cobounded1)
  then show "effective_crit rnd wp u \<le> 0.75"
    by (simp only: eq)
qed

lemma crit_upgrade_bound:
  assumes "effect up = Crit v"
  shows "crit_bonus (apply_upgrade rnd up wpn) = min 0.75 (fadd rnd (crit_bonus wpn) v)"
    and "crit_bonus (apply_upgrade rnd up wpn) \<le> 0.75"
proof -
  show eq: "crit_bonus (apply_upgrade rnd up wpn) = min 0.75 (fadd rnd (crit_bonus wpn) v)"
    using assms by (simp add: apply_upgrade_def)
  have "min 0.75 (fadd rnd (crit_bonus wpn) v) \<le> (0.75 :: real)"
    by (rule min.cobounded1)
  then show "crit_bonus (apply_upgrade rnd up wpn) \<le> 0.75"
    by (simp only: eq)
qed

lemma crit_other_weapons:
  "effective_crit rnd wp' u \<le> max 0.75 (effective_crit rnd wp u)"
proof (cases "is_hero u \<and> weapon u \<noteq> None")
  case True
  then obtain r where "weapon u = Some r" by auto
  with True have "effective_crit rnd wp' u \<le> 0.75"
    by (blast intro: hero_crit_bound(2))
  then show ?thesis by (simp add: max_def)
next
  case False
  then have "effective_crit rnd wp' u = effective_crit rnd wp u"
    by (auto simp: effective_crit_def split: option.splits)
  then show ?thesis by (simp add: max_def)
qed

text \<open>
  C5. For a hero with a weapon the effective crit is \<open>min(0.75, crit + crit_bonus)\<close>, hence
  at most 0.75 whatever the base crit and the bonus are. A crit upgrade sets the weapon's
  crit bonus to \<open>min(0.75, crit_bonus + value)\<close>, hence to at most 0.75, and no upgrade
  takes a crit bonus of at most 0.75 above 0.75. Whatever is done to the weapons, no
  unit's effective crit is thereby brought above 0.75. In every state of a match every
  weapon's crit bonus is at most 0.75; and, rounding being monotone and keeping 0.75,
  every created unit's effective crit is at most 0.75.
\<close>

theorem effective_crit_capped:
  "(is_hero u \<and> weapon u = Some r \<longrightarrow>
      effective_crit rnd wp u = min 0.75 (fadd rnd (crit u) (crit_bonus (wp r)))
      \<and> effective_crit rnd wp u \<le> 0.75)
   \<and> (effect up = Crit v \<longrightarrow>
        crit_bonus (apply_upgrade rnd up wpn) = min 0.75 (fadd rnd (crit_bonus wpn) v)
        \<and> crit_bonus (apply_upgrade rnd up wpn) \<le> 0.75)
   \<and> (crit_bonus wpn \<le> 0.75 \<longrightarrow> crit_bonus (apply_upgrade rnd up wpn) \<le> 0.75)
   \<and> effective_crit rnd wp' u \<le> max 0.75 (effective_crit rnd wp u)
   \<and> (reachable rnd (boot ps rs inp) m \<longrightarrow>
        crit_bonus (weapon_at (env m) (player_weapon m)) \<le> 0.75
        \<and> crit_bonus (weapon_at (env m) (enemy_weapon m)) \<le> 0.75)
   \<and> (reachable rnd (boot ps rs inp) m \<and> mono rnd \<and> rnd 0.75 = 0.75 \<longrightarrow>
        (\<forall>k<unit_count (env m).
            effective_crit rnd (weapon_at (env m)) (unit_at (env m) k) \<le> 0.75))"
proof (intro conjI impI)
  assume "is_hero u \<and> weapon u = Some r"
  then show "effective_crit rnd wp u = min 0.75 (fadd rnd (crit u) (crit_bonus (wp r)))"
    and "effective_crit rnd wp u \<le> 0.75"
    using hero_crit_bound [of u r rnd wp] by blast+
next
  assume "effect up = Crit v"
  then show "crit_bonus (apply_upgrade rnd up wpn) = min 0.75 (fadd rnd (crit_bonus wpn) v)"
    and "crit_bonus (apply_upgrade rnd up wpn) \<le> 0.75"
    by (rule crit_upgrade_bound)+
next
  assume "crit_bonus wpn \<le> 0.75"
  then show "crit_bonus (apply_upgrade rnd up wpn) \<le> 0.75"
    by (rule apply_upgrade_crit_bonus)
next
  show "effective_crit rnd wp' u \<le> max 0.75 (effective_crit rnd wp u)"
    by (rule crit_other_weapons)
next
  assume "reachable rnd (boot ps rs inp) m"
  then have "sound rnd (env m)"
    using reachable_ok [of rnd ps rs inp m] by (simp add: match_ok_def)
  then have "crit_bonus (weapon_at (env m) k) \<le> 0.75" for k
    unfolding sound_def by blast
  then show "crit_bonus (weapon_at (env m) (player_weapon m)) \<le> 0.75"
    and "crit_bonus (weapon_at (env m) (enemy_weapon m)) \<le> 0.75"
    by blast+
next
  assume h: "reachable rnd (boot ps rs inp) m \<and> mono rnd \<and> rnd 0.75 = 0.75"
  then have s: "sound rnd (env m)"
    using reachable_ok [of rnd ps rs inp m] by (simp add: match_ok_def)
  show "\<forall>k<unit_count (env m). effective_crit rnd (weapon_at (env m)) (unit_at (env m) k) \<le> 0.75"
  proof (intro allI impI)
    fix k assume "k < unit_count (env m)"
    with s have cases: "(is_hero (unit_at (env m) k) \<and> weapon (unit_at (env m) k) \<noteq> None)
        \<or> crit (unit_at (env m) k) \<in> t_crit ` set (UNIT_CATALOG rnd)"
      unfolding sound_def by blast
    show "effective_crit rnd (weapon_at (env m)) (unit_at (env m) k) \<le> 0.75"
    proof (cases "is_hero (unit_at (env m) k) \<and> weapon (unit_at (env m) k) \<noteq> None")
      case True
      then obtain r where "weapon (unit_at (env m) k) = Some r" by auto
      with True show ?thesis by (blast intro: hero_crit_bound(2))
    next
      case False
      with cases have "crit (unit_at (env m) k) \<le> 0.75"
        using h catalog_crit_bound [of rnd "crit (unit_at (env m) k)"] by blast
      moreover from False
      have "effective_crit rnd (weapon_at (env m)) (unit_at (env m) k) = crit (unit_at (env m) k)"
        by (auto simp: effective_crit_def split: option.splits)
      ultimately show ?thesis by (simp only:)
    qed
  qed
qed

theorem effective_crit_capped_witness:
  "is_hero (unit_at (env (demo 6)) 0) \<and> weapon (unit_at (env (demo 6)) 0) = Some 0
   \<and> effective_crit id (weapon_at (env (demo 6))) (unit_at (env (demo 6)) 0) = 0.1
   \<and> effective_crit id (weapon_at (env (demo 6))) (unit_at (env (demo 6)) 0) \<le> 0.75
   \<and> effect (UPGRADES id ! 1) = Crit 0.05
   \<and> crit_bonus (apply_upgrade id (UPGRADES id ! 1)
        \<lparr>damage_bonus = 0, crit_bonus = 0.72, speed_bonus = 0\<rparr>) = 0.75
   \<and> crit_bonus (apply_upgrade id (UPGRADES id ! 1)
        \<lparr>damage_bonus = 0, crit_bonus = 0.72, speed_bonus = 0\<rparr>) \<le> 0.75
   \<and> reachable id (boot (\<lambda>k. 2) (\<lambda>k. 1) [Done, Digits 1, Done]) (demo 6)
   \<and> mono (id :: rounding) \<and> id (0.75 :: real) = 0.75
   \<and> unit_count (env (demo 6)) = 5
   \<and> crit_bonus (weapon_at (env (demo 6)) (player_weapon (demo 6))) \<le> 0.75
   \<and> effective_crit id (weapon_at (env (demo 6))) (unit_at (env (demo 6)) 4) \<le> 0.75"
proof -
  have hero: "is_hero (unit_at (env (demo 6)) 0) \<and> weapon (unit_at (env (demo 6)) 0) = Some 0"
    by (simp add: demo_6 demo_5 demo_4 demo_3 demo_2 demo_1 demo_0)
  have crit_now: "effective_crit id (weapon_at (env (demo 6))) (unit_at (env (demo 6)) 0) = 0.1"
    by (simp add: demo_6 demo_5 demo_4 demo_3 demo_2 demo_1 demo_0 effective_crit_def fadd_def)
  have up: "effect (UPGRADES id ! 1) = Crit 0.05"
    by (simp add: UPGRADES_def)
  have bonus: "crit_bonus (apply_upgrade id (UPGRADES id ! 1)
        \<lparr>damage_bonus = 0, crit_bonus = 0.72, speed_bonus = 0\<rparr>) = 0.75"
    by (simp add: UPGRADES_def apply_upgrade_def fadd_def)
  have reach: "reachable id (boot (\<lambda>k. 2) (\<lambda>k. 1) [Done, Digits 1, Done]) (demo 6)"
    using reachable_demo [of 6] by (simp add: demo_boot_def)
  have rounding: "mono (id :: rounding) \<and> id (0.75 :: real) = 0.75"
    by (simp add: mono_def)
  have count: "unit_count (env (demo 6)) = 5"
    by (simp add: demo_6 demo_5 demo_4 demo_3 demo_2 demo_1 demo_0)
  note rule = effective_crit_capped [where rnd = id and ps = "\<lambda>k. 2" and rs = "\<lambda>k. 1"
      and inp = "[Done, Digits 1, Done]" and m = "demo 6" and u = "unit_at (env (demo 6)) 0"
      and r = 0 and wp = "weapon_at (env (demo 6))" and up = "UPGRADES id ! 1" and v = "0.05"
      and wpn = "\<lparr>damage_bonus = 0, crit_bonus = 0.72, speed_bonus = 0\<rparr>"]
  have a: "effective_crit id (weapon_at (env (demo 6))) (unit_at (env (demo 6)) 0) \<le> 0.75"
    using rule [THEN conjunct1] hero by blast
  have b: "crit_bonus (apply_upgrade id (UPGRADES id ! 1)
        \<lparr>damage_bonus = 0, crit_bonus = 0.72, speed_bonus = 0\<rparr>) \<le> 0.75"
    using rule [THEN conjunct2, THEN conjunct1] up by blast
  have c: "crit_bonus (weapon_at (env (demo 6)) (player_weapon (demo 6))) \<le> 0.75"
    using rule [THEN conjunct2, THEN conjunct2, THEN conjunct2, THEN conjunct2, THEN conjunct1]
      reach by blast
  have "\<forall>k<unit_count (env (demo 6)).
      effective_crit id (weapon_at (env (demo 6))) (unit_at (env (demo 6)) k) \<le> 0.75"
    using rule [THEN conjunct2, THEN conjunct2, THEN conjunct2, THEN conjunct2, THEN conjunct2]
      reach rounding by blast
  then have d: "effective_crit id (weapon_at (env (demo 6))) (unit_at (env (demo 6)) 4) \<le> 0.75"
    using count by simp
  from hero crit_now up bonus reach rounding count a b c d show ?thesis
    by blast
qed



section \<open>Round income and spending\<close>

lemma classify_continue:
  "classify p e \<noteq> ''player'' \<and> classify p e \<noteq> ''enemy'' \<and> classify p e \<noteq> ''draw''
   \<longleftrightarrow> classify p e = ''continue''"
  by (simp add: classify_def)

lemma fight_step:
  assumes "stage m = At_fight"
  shows "main_step rnd m
    = Some (m\<lparr>env := snd (fight_round rnd (player_team m) (enemy_team m) (env m)),
              stage := (if fst (fight_round rnd (player_team m) (enemy_team m) (env m))
                           = ''continue''
                        then At_income
                        else Game_over
                          (fst (fight_round rnd (player_team m) (enemy_team m) (env m))))\<rparr>)"
proof -
  obtain res w where fr: "fight_round rnd (player_team m) (enemy_team m) (env m) = (res, w)"
    by (cases "fight_round rnd (player_team m) (enemy_team m) (env m)") auto
  then have "res = classify (length (alive_units w (player_team m)))
                            (length (alive_units w (enemy_team m)))"
    by (auto simp: fight_round_def Let_def)
  then have "res \<noteq> ''player'' \<and> res \<noteq> ''enemy'' \<and> res \<noteq> ''draw'' \<longleftrightarrow> res = ''continue''"
    by (simp only: classify_continue)
  then show ?thesis
    using assms fr by (auto simp: main_step_def)
qed

lemma economy_entry:
  assumes "main_step rnd m = Some m'" and "stage m' = At_upgrade_shop"
  shows "stage m = At_income"
proof (cases "stage m")
  case At_prematch_shop
  with assms show ?thesis
    by (auto simp: main_step_def split: sum.splits)
next
  case At_ai_buy
  with assms show ?thesis
    by (auto simp: main_step_def split: option.splits)
next
  case At_fight
  with assms show ?thesis
    by (auto simp: fight_step split: if_splits)
next
  case At_income
  then show ?thesis .
next
  case At_upgrade_shop
  with assms show ?thesis
    by (auto simp: main_step_def split: sum.splits)
next
  case At_ai_upgrade
  with assms show ?thesis
    by (auto simp: main_step_def split: prod.splits)
next
  case (Game_over res)
  with assms show ?thesis by (simp add: main_step_def)
next
  case (Raised e)
  with assms show ?thesis by (simp add: main_step_def)
qed

lemma shop_purchase:
  assumes "stdin w = Digits n # rest" and "1 \<le> n \<and> n \<le> length (UPGRADES rnd)"
  shows "run_upgrade_shop rnd gold wpn w
    = run_upgrade_shop rnd
        (fst (buy_upgrade rnd (UPGRADES rnd ! (n - 1)) gold wpn (w\<lparr>stdin := rest\<rparr>))) wpn
        (snd (buy_upgrade rnd (UPGRADES rnd ! (n - 1)) gold wpn (w\<lparr>stdin := rest\<rparr>)))"
  using assms
  by (subst run_upgrade_shop.simps) (simp add: read_line_def split_def Let_def)

text \<open>
  C8. The income of a round is \<open>ROUND_INCOME + 2 = 7\<close>. The step of \<open>main\<close> that opens the
  economy phase adds it to both balances; that step follows a round exactly when the
  round returned \<open>continue\<close> (after any other result the match is over), and the upgrade
  shop is entered from that step only. So a balance of 20 is 27 after one income. A
  purchase whose cost the balance covers subtracts the cost and upgrades the weapon: with
  27, the upgrade of cost 6 leaves 21. A purchase whose cost exceeds the balance is
  refused: the line \<open>Not enough gold.\<close> is printed (this is how the code signals
  insufficient funds), the balance is returned as it was and neither weapon nor unit is
  touched: a cost of 30 against 21 leaves 21. The shop applies this purchase to the
  upgrade chosen from the menu and goes on with the balance the purchase returns.
\<close>

theorem round_income_and_spending:
  "ROUND_INCOME + 2 = 7
   \<and> (stage m = At_income \<longrightarrow>
        main_step rnd m = Some (m\<lparr>player_gold := player_gold m + 7,
                                   enemy_gold := enemy_gold m + 7,
                                   stage := At_upgrade_shop\<rparr>))
   \<and> (stage m = At_fight \<longrightarrow>
        main_step rnd m
        = Some (m\<lparr>env := snd (fight_round rnd (player_team m) (enemy_team m) (env m)),
                  stage := (if fst (fight_round rnd (player_team m) (enemy_team m) (env m))
                               = ''continue''
                            then At_income
                            else Game_over
                              (fst (fight_round rnd (player_team m) (enemy_team m) (env m))))\<rparr>))
   \<and> (main_step rnd m = Some m' \<and> stage m' = At_upgrade_shop \<longrightarrow> stage m = At_income)
   \<and> 20 + (ROUND_INCOME + 2) = 27
   \<and> (\<not> gold < cost up \<longrightarrow>
        buy_upgrade rnd up gold wpn w = (gold - cost up, upgrade_weapon rnd up wpn w))
   \<and> cost (UPGRADES rnd ! 0) = 6
   \<and> fst (buy_upgrade rnd (UPGRADES rnd ! 0) 27 wpn w) = 21
   \<and> (gold < cost up \<longrightarrow> buy_upgrade rnd up gold wpn w = (gold, print Not_enough_gold w))
   \<and> buy_upgrade rnd (up\<lparr>cost := 30\<rparr>) 21 wpn w = (21, print Not_enough_gold w)
   \<and> weapon_at (print Not_enough_gold w) = weapon_at w
   \<and> unit_at (print Not_enough_gold w) = unit_at w
   \<and> stdout (print Not_enough_gold w) = stdout w @ [Not_enough_gold]
   \<and> (stdin w = Digits n # rest \<and> 1 \<le> n \<and> n \<le> length (UPGRADES rnd) \<longrightarrow>
        run_upgrade_shop rnd gold wpn w
        = run_upgrade_shop rnd
            (fst (buy_upgrade rnd (UPGRADES rnd ! (n - 1)) gold wpn (w\<lparr>stdin := rest\<rparr>))) wpn
            (snd (buy_upgrade rnd (UPGRADES rnd ! (n - 1)) gold wpn (w\<lparr>stdin := rest\<rparr>))))"
proof (intro conjI impI)
  show "ROUND_INCOME + 2 = 7" and "20 + (ROUND_INCOME + 2) = 27"
    by (simp_all add: ROUND_INCOME_def)
next
  assume "stage m = At_income"
  then show "main_step rnd m = Some (m\<lparr>player_gold := player_gold m + 7,
      enemy_gold := enemy_gold m + 7, stage := At_upgrade_shop\<rparr>)"
    by (simp add: main_step_def ROUND_INCOME_def)
next
  assume "stage m = At_fight"
  then show "main_step rnd m
        = Some (m\<lparr>env := snd (fight_round rnd (player_team m) (enemy_team m) (env m)),
                  stage := (if fst (fight_round rnd (player_team m) (enemy_team m) (env m))
                               = ''continue''
                            then At_income
                            else Game_over
                              (fst (fight_round rnd (player_team m) (enemy_team m) (env m))))\<rparr>)"
    by (rule fight_step)
next
  assume "main_step rnd m = Some m' \<and> stage m' = At_upgrade_shop"
  then show "stage m = At_income"
    using economy_entry by blast
next
  assume "\<not> gold < cost up"
  then show "buy_upgrade rnd up gold wpn w = (gold - cost up, upgrade_weapon rnd up wpn w)"
    by (simp add: buy_upgrade_def)
next
  show "cost (UPGRADES rnd ! 0) = 6"
    and "fst (buy_upgrade rnd (UPGRADES rnd ! 0) 27 wpn w) = 21"
    by (simp_all add: UPGRADES_def buy_upgrade_def)
next
  assume "gold < cost up"
  then show "buy_upgrade rnd up gold wpn w = (gold, print Not_enough_gold w)"
    by (simp add: buy_upgrade_def)
next
  show "buy_upgrade rnd (up\<lparr>cost := 30\<rparr>) 21 wpn w = (21, print Not_enough_gold w)"
    by (simp add: buy_upgrade_def)
  show "weapon_at (print Not_enough_gold w) = weapon_at w"
    and "unit_at (print Not_enough_gold w) = unit_at w"
    and "stdout (print Not_enough_gold w) = stdout w @ [Not_enough_gold]"
    by (simp_all add: print_def)
next
  assume "stdin w = Digits n # rest \<and> 1 \<le> n \<and> n \<le> length (UPGRADES rnd)"
  then show "run_upgrade_shop rnd gold wpn w
        = run_upgrade_shop rnd
            (fst (buy_upgrade rnd (UPGRADES rnd ! (n - 1)) gold wpn (w\<lparr>stdin := rest\<rparr>))) wpn
            (snd (buy_upgrade rnd (UPGRADES rnd ! (n - 1)) gold wpn (w\<lparr>stdin := rest\<rparr>)))"
    using shop_purchase by blast
qed

theorem round_income_and_spending_witness:
  "stage (demo 3) = At_income \<and> player_gold (demo 3) = 20 \<and> enemy_gold (demo 3) = 2
   \<and> main_step id (demo 3) = Some (demo 4)
   \<and> player_gold (demo 4) = 27 \<and> enemy_gold (demo 4) = 9 \<and> stage (demo 4) = At_upgrade_shop
   \<and> stage (demo 2) = At_fight
   \<and> fst (fight_round id (player_team (demo 2)) (enemy_team (demo 2)) (env (demo 2)))
       = ''continue''
   \<and> main_step id (demo 2) = Some (demo 3)
   \<and> stdin (env (demo 4)) = Digits 1 # [Done] \<and> (1 :: nat) \<le> 1 \<and> 1 \<le> length (UPGRADES id)
   \<and> \<not> (27 :: int) < cost (UPGRADES id ! 0)
   \<and> run_upgrade_shop id 27 0 (env (demo 4)) = Inr (21, env (demo 5))
   \<and> (3 :: int) < cost (UPGRADES id ! 2)
   \<and> buy_upgrade id (UPGRADES id ! 2) 3 0 (env (demo 5))
       = (3, print Not_enough_gold (env (demo 5)))
   \<and> buy_upgrade id ((UPGRADES id ! 0)\<lparr>cost := 30\<rparr>) 21 0 (env (demo 5))
       = (21, print Not_enough_gold (env (demo 5)))"
proof -
  have s3: "stage (demo 3) = At_income \<and> player_gold (demo 3) = 20 \<and> enemy_gold (demo 3) = 2"
    by (simp add: demo_3 demo_2 demo_1 demo_0)
  have s4: "player_gold (demo 4) = 27 \<and> enemy_gold (demo 4) = 9
      \<and> stage (demo 4) = At_upgrade_shop"
    by (simp add: demo_4 demo_3 demo_2 demo_1 demo_0)
  have s2: "stage (demo 2) = At_fight"
    by (simp add: demo_2 demo_1 demo_0)
  have inp: "stdin (env (demo 4)) = Digits 1 # [Done]"
    by (simp add: demo_4 demo_3 demo_2 demo_1 demo_0)
  have menu: "(1 :: nat) \<le> 1 \<and> 1 \<le> length (UPGRADES id)"
    and rich: "\<not> (27 :: int) < cost (UPGRADES id ! 0)"
    and poor: "(3 :: int) < cost (UPGRADES id ! 2)"
    by (simp_all add: UPGRADES_def)
  note rule = round_income_and_spending [where rnd = id]
  have income: "main_step id (demo 3) = Some (demo 4)"
    using rule [where m = "demo 3", THEN conjunct2, THEN conjunct1] s3
    by (simp add: demo_4)
  have entry: "stage (demo 3) = At_income"
    using rule [where m = "demo 3" and m' = "demo 4", THEN conjunct2, THEN conjunct2,
        THEN conjunct2, THEN conjunct1] income s4
    by blast
  have fought: "main_step id (demo 2) = Some (demo 3)"
    by (simp add: step_2 demo_3)
  define after where "after = (demo 2)\<lparr>env := snd (fight_round id (player_team (demo 2))
                                   (enemy_team (demo 2)) (env (demo 2))),
                stage := (if fst (fight_round id (player_team (demo 2)) (enemy_team (demo 2))
                                   (env (demo 2))) = ''continue''
                          then At_income
                          else Game_over (fst (fight_round id (player_team (demo 2))
                                                (enemy_team (demo 2)) (env (demo 2)))))\<rparr>"
  have "main_step id (demo 2) = Some after"
    unfolding after_def
    using rule [where m = "demo 2", THEN conjunct2, THEN conjunct2, THEN conjunct1] s2
    by blast
  with fought have "demo 3 = after"
    by simp
  then have "stage (demo 3) = stage after"
    by (rule arg_cong)
  then have "stage (demo 3)
      = (if fst (fight_round id (player_team (demo 2)) (enemy_team (demo 2)) (env (demo 2)))
            = ''continue''
         then At_income
         else Game_over (fst (fight_round id (player_team (demo 2)) (enemy_team (demo 2))
                               (env (demo 2)))))"
    by (simp add: after_def)
  with s3 fought
  have round: "fst (fight_round id (player_team (demo 2)) (enemy_team (demo 2))
        (env (demo 2))) = ''continue'' \<and> main_step id (demo 2) = Some (demo 3)"
    by (simp split: if_splits)
  have bought: "buy_upgrade id (UPGRADES id ! 0) 27 0 ((env (demo 4))\<lparr>stdin := [Done]\<rparr>)
      = (27 - cost (UPGRADES id ! 0),
         upgrade_weapon id (UPGRADES id ! 0) 0 ((env (demo 4))\<lparr>stdin := [Done]\<rparr>))"
    using rule [where gold = 27 and up = "UPGRADES id ! 0", THEN conjunct2, THEN conjunct2,
        THEN conjunct2, THEN conjunct2, THEN conjunct2, THEN conjunct1] rich
    by blast
  have "run_upgrade_shop id 27 0 (env (demo 4))
      = run_upgrade_shop id
          (fst (buy_upgrade id (UPGRADES id ! (1 - 1)) 27 0 ((env (demo 4))\<lparr>stdin := [Done]\<rparr>))) 0
          (snd (buy_upgrade id (UPGRADES id ! (1 - 1)) 27 0 ((env (demo 4))\<lparr>stdin := [Done]\<rparr>)))"
    using rule [where w = "env (demo 4)" and n = 1 and rest = "[Done]" and gold = 27 and wpn = 0,
        THEN conjunct2, THEN conjunct2, THEN conjunct2, THEN conjunct2, THEN conjunct2,
        THEN conjunct2, THEN conjunct2, THEN conjunct2, THEN conjunct2, THEN conjunct2,
        THEN conjunct2, THEN conjunct2, THEN conjunct2] inp menu
    by blast
  then have shop: "run_upgrade_shop id 27 0 (env (demo 4)) = Inr (21, env (demo 5))"
    by (simp add: bought)
       (simp add: demo_5 demo_4 demo_3 demo_2 demo_1 demo_0 run_upgrade_shop.simps
          read_line_def UPGRADES_def upgrade_weapon_def apply_upgrade_def)
  have refused: "buy_upgrade id (UPGRADES id ! 2) 3 0 (env (demo 5))
       = (3, print Not_enough_gold (env (demo 5)))"
    using rule [where gold = 3 and up = "UPGRADES id ! 2", THEN conjunct2, THEN conjunct2,
        THEN conjunct2, THEN conjunct2, THEN conjunct2, THEN conjunct2, THEN conjunct2,
        THEN conjunct2, THEN conjunct1] poor
    by blast
  have thirty: "buy_upgrade id ((UPGRADES id ! 0)\<lparr>cost := 30\<rparr>) 21 0 (env (demo 5))
       = (21, print Not_enough_gold (env (demo 5)))"
    using rule [THEN conjunct2, THEN conjunct2, THEN conjunct2, THEN conjunct2, THEN conjunct2,
        THEN conjunct2, THEN conjunct2, THEN conjunct2, THEN conjunct2, THEN conjunct1]
    by blast
  from s3 s4 s2 inp menu rich poor income round shop refused thirty show ?thesis
    by blast
qed


end
